theory Spec2Isabelle
  imports Main
begin

section \<open>LOOT session state (src/gui/state/loot_state.cpp)\<close>

text \<open>
  A shallow embedding of \<^verbatim>\<open>loot::LootState\<close>. The class keeps the installed games in
  \<^verbatim>\<open>installedGames_\<close> and the selection as an iterator \<^verbatim>\<open>currentGame_\<close> into that
  container. Member names are those of the source without the trailing underscore.
  The mutex is not modelled: every operation is taken as one atomic step. Logging is left out.
\<close>

subsection \<open>Game settings and case-insensitive comparison\<close>

text \<open>
  Modelled from the spec: \<^verbatim>\<open>GameSettings\<close> is declared in a header that is not part of the
  sources. Its fields here are those the source reads and writes through
  \<^verbatim>\<open>FolderName()\<close>, \<^verbatim>\<open>Name()\<close>, \<^verbatim>\<open>SetName\<close> and so on, the master being a flag as in
  section 3 of the specification. \<^verbatim>\<open>gui::Game\<close> derives from \<^verbatim>\<open>GameSettings\<close>; the
  handles it holds besides are not modelled.
\<close>

record GameSettings =
  FolderName :: string
  Name :: string
  Master :: bool
  RepoURL :: string
  RepoBranch :: string
  GamePath :: string
  RegistryKey :: string

type_synonym Game = GameSettings

text \<open>
  \<^verbatim>\<open>boost::iequals\<close> on ASCII: two strings are equal after every lower-case letter
  (codes 97 to 122) is replaced by its upper-case letter, which clears the bit of value 32.
\<close>

definition to_upper :: "char \<Rightarrow> char" where
  "to_upper c =
     (if (97::nat) \<le> of_char c \<and> of_char c \<le> (122::nat)
      then Char (digit0 c) (digit1 c) (digit2 c) (digit3 c) (digit4 c) False (digit6 c) (digit7 c)
      else c)"

definition iequals :: "string \<Rightarrow> string \<Rightarrow> bool" where
  "iequals a b = (map to_upper a = map to_upper b)"

text \<open>
  Modelled from the spec: \<^verbatim>\<open>operator==\<close> between a \<^verbatim>\<open>gui::Game\<close> and a \<^verbatim>\<open>GameSettings\<close>,
  which \<^verbatim>\<open>std::find\<close> uses in \<^verbatim>\<open>load\<close>, is declared in a header that is not part of the
  sources. The specification (4.1, step 1a) gives it as case-insensitive equality of the
  folder names.
\<close>

definition Game_eq :: "GameSettings \<Rightarrow> Game \<Rightarrow> bool" where
  "Game_eq gs game = iequals (FolderName game) (FolderName gs)"

subsection \<open>The container and its iterators\<close>

text \<open>
  Modelled from the spec: the declaration of \<^verbatim>\<open>installedGames_\<close> is in the absent header.
  The specification speaks of a mutable list and of a position into it, and the source
  compares \<^verbatim>\<open>currentGame_\<close> with \<^verbatim>\<open>installedGames_.end()\<close> after insertions, so the
  container is taken as a \<^verbatim>\<open>std::list\<close>: a sequence of nodes, each with an address that
  never changes while the node lives. An iterator is the past-the-end position or the
  address of a node. Erasing a node leaves every iterator that holds its address
  invalid: such an iterator still differs from \<^verbatim>\<open>end()\<close>, and reading through it is
  undefined behaviour. Addresses are natural numbers, handed out in increasing order by
  \<open>fresh\<close> and never used again.
\<close>

datatype iterator = End | Node nat

type_synonym games = "(nat \<times> Game) list"

fun find_if :: "(Game \<Rightarrow> bool) \<Rightarrow> games \<Rightarrow> iterator" where
  "find_if P [] = End"
| "find_if P ((n, g) # xs) = (if P g then Node n else find_if P xs)"

fun list_begin :: "games \<Rightarrow> iterator" where
  "list_begin [] = End"
| "list_begin ((n, g) # xs) = Node n"

fun deref :: "games \<Rightarrow> iterator \<Rightarrow> Game option" where
  "deref xs End = None"
| "deref xs (Node n) = map_of xs n"

fun modify_at :: "nat \<Rightarrow> (Game \<Rightarrow> Game) \<Rightarrow> games \<Rightarrow> games" where
  "modify_at n f [] = []"
| "modify_at n f ((m, g) # xs) =
     (if m = n then (m, f g) # xs else (m, g) # modify_at n f xs)"

subsection \<open>State, collaborators and outcomes\<close>

text \<open>
  \<^verbatim>\<open>LootState\<close> derives from \<^verbatim>\<open>LootSettings\<close>, which stores the configured games, the
  configured default game and the last game used.
\<close>

record LootSettings =
  gameSettings :: "GameSettings list"
  game :: string
  lastGame :: string

text \<open>
  Modelled from the spec: the type of \<^verbatim>\<open>unappliedChangeCounter_\<close> is declared in the absent
  header; the specification calls it an integer, so it is an unbounded \<open>int\<close> here and the
  overflow of an increment is not modelled.
\<close>

record LootState = LootSettings +
  installedGames :: games
  fresh :: nat
  currentGame :: iterator
  unappliedChangeCounter :: int
  initErrors :: "string list"

text \<open>
  The collaborators whose code is outside the sources, as parameters:
  \<^verbatim>\<open>gui::Game::IsInstalled\<close>, the game path that the constructor of \<^verbatim>\<open>gui::Game\<close> leaves in
  the new object, and \<^verbatim>\<open>gui::Game::Init\<close>, which either returns or throws an exception with
  the given message. What \<^verbatim>\<open>Init\<close> does to the handles of a game is not modelled.
\<close>

record env =
  IsInstalled :: "GameSettings \<Rightarrow> bool"
  ctorGamePath :: "GameSettings \<Rightarrow> string"
  Init_what :: "Game \<Rightarrow> string option"

datatype exn = GameDetectionError string | InitException string

text \<open>
  An operation returns, throws, or runs into undefined behaviour by reading through an
  iterator that denotes no node. The state is the one at that moment.
\<close>

datatype 'a outcome = Returns 'a | Throws exn | Undefined

text \<open>
  Modelled from the spec: the constructor of \<^verbatim>\<open>gui::Game\<close> is outside the sources. The
  new game, built from a descriptor, has the descriptor's fields, with the game path that
  the constructor leaves in it (\<^verbatim>\<open>load\<close> writes that path back to the settings).
\<close>

definition Game_ctor :: "env \<Rightarrow> GameSettings \<Rightarrow> Game" where
  "Game_ctor env gs = gs\<lparr>GamePath := ctorGamePath env gs\<rparr>"

text \<open>
  The constructor leaves the counter at zero and the selection at \<^verbatim>\<open>end()\<close>. What the
  constructor of the base class leaves in the settings is its argument here.
\<close>

definition LootState_ctor :: "LootSettings \<Rightarrow> LootState" where
  "LootState_ctor base =
     \<lparr>gameSettings = gameSettings base, game = game base, lastGame = lastGame base,
      installedGames = [], fresh = 0, currentGame = End,
      unappliedChangeCounter = 0, initErrors = []\<rparr>"

text \<open>\<^verbatim>\<open>currentGame_->Init()\<close>: reads through the iterator, then runs the collaborator.\<close>

definition Game_Init :: "env \<Rightarrow> LootState \<Rightarrow> unit outcome \<times> LootState" where
  "Game_Init env st =
     (case deref (installedGames st) (currentGame st) of
        None \<Rightarrow> (Undefined, st)
      | Some g \<Rightarrow>
          (case Init_what env g of
             Some what \<Rightarrow> (Throws (InitException what), st)
           | None \<Rightarrow> (Returns (), st)))"

subsection \<open>Operations\<close>

text \<open>
  Modelled from the spec: \<^verbatim>\<open>LootSettings::load\<close> belongs to the absent base class. Its
  argument is taken as already parsed, and it replaces the stored configuration.
\<close>

definition LootSettings_load :: "LootSettings \<Rightarrow> LootState \<Rightarrow> LootState" where
  "LootSettings_load settings st =
     st\<lparr>gameSettings := gameSettings settings, game := game settings,
        lastGame := lastGame settings\<rparr>"

text \<open>
  \<^verbatim>\<open>updateStoredGamePathSetting\<close>: copies the stored settings, looks for the first one whose
  folder name equals the game's without regard to case, sets its path and stores the copy.
  When none is found it only logs.
\<close>

definition updateStoredGamePathSetting :: "Game \<Rightarrow> LootState \<Rightarrow> LootState" where
  "updateStoredGamePathSetting g st =
     (case List.extract (\<lambda>s. iequals (FolderName g) (FolderName s)) (gameSettings st) of
        None \<Rightarrow> st
      | Some (before, pos, after) \<Rightarrow>
          st\<lparr>gameSettings := before @ pos\<lparr>GamePath := GamePath g\<rparr> # after\<rparr>)"

definition push_back :: "Game \<Rightarrow> LootState \<Rightarrow> LootState" where
  "push_back g st =
     st\<lparr>installedGames := installedGames st @ [(fresh st, g)], fresh := Suc (fresh st)\<rparr>"

text \<open>The chain of setters applied to an entry that is already in the list.\<close>

definition set_fields :: "GameSettings \<Rightarrow> Game \<Rightarrow> Game" where
  "set_fields gs g =
     g\<lparr>Name := Name gs, Master := Master gs,
       RepoURL := RepoURL gs, RepoBranch := RepoBranch gs,
       GamePath := GamePath gs, RegistryKey := RegistryKey gs\<rparr>"

text \<open>\<^verbatim>\<open>push_back\<close> of a new game followed by \<^verbatim>\<open>updateStoredGamePathSetting(installedGames_.back())\<close>.\<close>

definition add_game :: "env \<Rightarrow> GameSettings \<Rightarrow> LootState \<Rightarrow> LootState" where
  "add_game env gs st =
     (let st1 = push_back (Game_ctor env gs) st
      in updateStoredGamePathSetting (snd (last (installedGames st1))) st1)"

text \<open>
  One pass of the first loop of \<^verbatim>\<open>load\<close>, with the set \<^verbatim>\<open>newGameFolders\<close> threaded through.
  The loop runs over the settings as they are when it starts: storing a path changes, in
  the stored sequence, only an element at or before the one being visited, and only its path.
\<close>

definition load_game :: "env \<Rightarrow> GameSettings \<Rightarrow> LootState \<times> string set \<Rightarrow> LootState \<times> string set"
  where
  "load_game env gs acc =
     (let st = fst acc; newGameFolders = snd acc;
          st' = (case find_if (Game_eq gs) (installedGames st) of
                   Node pos \<Rightarrow>
                     st\<lparr>installedGames := modify_at pos (set_fields gs) (installedGames st)\<rparr>
                 | End \<Rightarrow>
                     if IsInstalled env gs then add_game env gs st else st)
      in (st', insert (FolderName gs) newGameFolders))"

fun load_games :: "env \<Rightarrow> GameSettings list \<Rightarrow> LootState \<times> string set \<Rightarrow> LootState \<times> string set"
  where
  "load_games env [] acc = acc"
| "load_games env (gs # rest) acc = load_games env rest (load_game env gs acc)"

text \<open>The second loop of \<^verbatim>\<open>load\<close>: erase every game whose folder name is not in the set.\<close>

fun remove_deleted :: "string set \<Rightarrow> games \<Rightarrow> games" where
  "remove_deleted newGameFolders [] = []"
| "remove_deleted newGameFolders ((n, g) # xs) =
     (if FolderName g \<notin> newGameFolders then remove_deleted newGameFolders xs
      else (n, g) # remove_deleted newGameFolders xs)"

definition selectGame :: "string \<Rightarrow> LootState \<Rightarrow> unit outcome \<times> LootState" where
  "selectGame preferredGame st =
     (let preferred =
            (if preferredGame = []
             then (if game st \<noteq> ''auto'' then game st
                   else if lastGame st \<noteq> ''auto'' then lastGame st
                   else preferredGame)
             else preferredGame);
          found = find_if (\<lambda>g. preferred = [] \<or> preferred = FolderName g) (installedGames st);
          chosen = (if found = End then list_begin (installedGames st) else found);
          st' = st\<lparr>currentGame := chosen\<rparr>
      in if chosen = End
         then (Throws (GameDetectionError ''None of the supported games were detected.''), st')
         else (Returns (), st'))"

text \<open>The registry part of \<^verbatim>\<open>load\<close>: both loops, on the settings just stored.\<close>

definition reconcile :: "env \<Rightarrow> LootState \<Rightarrow> LootState" where
  "reconcile env st =
     (let acc = load_games env (gameSettings st) (st, {})
      in (fst acc)\<lparr>installedGames := remove_deleted (snd acc) (installedGames (fst acc))\<rparr>)"

text \<open>
  The end of \<^verbatim>\<open>load\<close>: select a game if the selection is \<^verbatim>\<open>end()\<close>, then initialise the
  current game if the selection is not \<^verbatim>\<open>end()\<close>.
\<close>

definition select_and_init :: "env \<Rightarrow> LootState \<Rightarrow> unit outcome \<times> LootState" where
  "select_and_init env st =
     (let sel = (if currentGame st = End then selectGame [] st else (Returns (), st))
      in case fst sel of
           Returns u \<Rightarrow>
             if currentGame (snd sel) \<noteq> End then Game_Init env (snd sel) else (Returns (), snd sel)
         | Throws e \<Rightarrow> (Throws e, snd sel)
         | Undefined \<Rightarrow> (Undefined, snd sel))"

definition load :: "env \<Rightarrow> LootSettings \<Rightarrow> LootState \<Rightarrow> unit outcome \<times> LootState" where
  "load env settings st = select_and_init env (reconcile env (LootSettings_load settings st))"

definition changeGame :: "env \<Rightarrow> string \<Rightarrow> LootState \<Rightarrow> unit outcome \<times> LootState" where
  "changeGame env newGameFolder st =
     Game_Init env
       (st\<lparr>currentGame := find_if (\<lambda>g. iequals newGameFolder (FolderName g)) (installedGames st)\<rparr>)"

text \<open>
  \<^verbatim>\<open>getCurrentGame\<close> returns \<^verbatim>\<open>*currentGame_\<close>: the node the iterator denotes, given here
  by its address and its contents.
\<close>

definition getCurrentGame :: "LootState \<Rightarrow> (nat \<times> Game) outcome" where
  "getCurrentGame st =
     (case currentGame st of
        End \<Rightarrow> Undefined
      | Node n \<Rightarrow> (case map_of (installedGames st) n of None \<Rightarrow> Undefined | Some g \<Rightarrow> Returns (n, g)))"

definition getInstalledGames :: "LootState \<Rightarrow> string list" where
  "getInstalledGames st = map (\<lambda>e. FolderName (snd e)) (installedGames st)"

definition getInitErrors :: "LootState \<Rightarrow> string list" where
  "getInitErrors st = initErrors st"

definition hasUnappliedChanges :: "LootState \<Rightarrow> bool" where
  "hasUnappliedChanges st = (unappliedChangeCounter st > 0)"

definition incrementUnappliedChangeCounter :: "LootState \<Rightarrow> LootState" where
  "incrementUnappliedChangeCounter st = st\<lparr>unappliedChangeCounter := unappliedChangeCounter st + 1\<rparr>"

definition decrementUnappliedChangeCounter :: "LootState \<Rightarrow> LootState" where
  "decrementUnappliedChangeCounter st =
     (if unappliedChangeCounter st > 0
      then st\<lparr>unappliedChangeCounter := unappliedChangeCounter st - 1\<rparr>
      else st)"

text \<open>
  \<^verbatim>\<open>save\<close> stores the folder name of the current game as the last game; writing the file is
  outside the model.
\<close>

definition save :: "LootState \<Rightarrow> unit outcome \<times> LootState" where
  "save st =
     (case deref (installedGames st) (currentGame st) of
        None \<Rightarrow> (Undefined, st)
      | Some g \<Rightarrow> (Returns (), st\<lparr>lastGame := FolderName g\<rparr>))"

text \<open>
  \<^verbatim>\<open>init\<close>, without locale, log and file system set-up. Its inputs besides the command line
  game: the message of a failed creation of the data directory, if any, and what reading the
  settings file gave. Every exception is caught and recorded in \<^verbatim>\<open>initErrors_\<close>.
\<close>

datatype settings_file = NoFile | ParsingFailed string | Parsed LootSettings

fun detect_games :: "env \<Rightarrow> GameSettings list \<Rightarrow> LootState \<Rightarrow> LootState" where
  "detect_games env [] st = st"
| "detect_games env (gs # rest) st =
     detect_games env rest
       (if IsInstalled env gs then add_game env gs st else st)"

definition record_error :: "string \<Rightarrow> string \<Rightarrow> LootState \<Rightarrow> LootState" where
  "record_error prefix what st = st\<lparr>initErrors := initErrors st @ [prefix @ what]\<rparr>"

definition exn_what :: "exn \<Rightarrow> string" where
  "exn_what e = (case e of GameDetectionError what \<Rightarrow> what | InitException what \<Rightarrow> what)"

definition init :: "string option \<Rightarrow> settings_file \<Rightarrow> env \<Rightarrow> string \<Rightarrow> LootState \<Rightarrow> LootState"
  where
  "init createDirectoryError file env cmdLineGame st =
     (let st1 = (case createDirectoryError of
                   None \<Rightarrow> st
                 | Some what \<Rightarrow> record_error ''Error: Could not create LOOT settings file. '' what st);
          st2 = (case file of
                   NoFile \<Rightarrow> st1
                 | ParsingFailed what \<Rightarrow> record_error ''Error: Settings parsing failed. '' what st1
                 | Parsed settings \<Rightarrow> LootSettings_load settings st1);
          st3 = detect_games env (gameSettings st2) (st2\<lparr>installedGames := []\<rparr>);
          sel = selectGame cmdLineGame st3;
          res = (case fst sel of Returns u \<Rightarrow> Game_Init env (snd sel) | r \<Rightarrow> (r, snd sel))
      in case fst res of
           Throws e \<Rightarrow>
             record_error ''Error: Game-specific settings could not be initialised. ''
               (exn_what e) (snd res)
         | r \<Rightarrow> snd res)"

subsection \<open>Reachable states\<close>

text \<open>
  The states a session can be in: the constructed one, and those the public operations lead
  to. Nothing is said about a state after undefined behaviour.
\<close>

inductive reachable :: "env \<Rightarrow> LootState \<Rightarrow> bool" for env :: env where
  reach_ctor: "reachable env (LootState_ctor base)"
| reach_init: "reachable env st \<Longrightarrow> reachable env (init dirError file env cmdLineGame st)"
| reach_load:
    "reachable env st \<Longrightarrow> fst (load env settings st) \<noteq> Undefined
       \<Longrightarrow> reachable env (snd (load env settings st))"
| reach_changeGame:
    "reachable env st \<Longrightarrow> fst (changeGame env folder st) \<noteq> Undefined
       \<Longrightarrow> reachable env (snd (changeGame env folder st))"
| reach_save: "reachable env st \<Longrightarrow> fst (save st) \<noteq> Undefined \<Longrightarrow> reachable env (snd (save st))"
| reach_increment: "reachable env st \<Longrightarrow> reachable env (incrementUnappliedChangeCounter st)"
| reach_decrement: "reachable env st \<Longrightarrow> reachable env (decrementUnappliedChangeCounter st)"

subsection \<open>The preference chain as the specification words it\<close>

text \<open>
  The selection of section 4.2 of the specification, for comparison with \<open>selectGame\<close>:
  the first of preferred, configured default and last used game that matches an entry
  without regard to case wins; otherwise the first entry.
\<close>

definition spec_matches :: "string \<Rightarrow> games \<Rightarrow> bool" where
  "spec_matches name xs = (find_if (\<lambda>g. iequals name (FolderName g)) xs \<noteq> End)"

definition spec_select :: "string \<Rightarrow> string \<Rightarrow> string \<Rightarrow> games \<Rightarrow> iterator" where
  "spec_select preferred configuredDefault lastUsed xs =
     (if preferred \<noteq> [] \<and> spec_matches preferred xs
      then find_if (\<lambda>g. iequals preferred (FolderName g)) xs
      else if configuredDefault \<noteq> ''auto'' \<and> spec_matches configuredDefault xs
      then find_if (\<lambda>g. iequals configuredDefault (FolderName g)) xs
      else if lastUsed \<noteq> ''auto'' \<and> spec_matches lastUsed xs
      then find_if (\<lambda>g. iequals lastUsed (FolderName g)) xs
      else list_begin xs)"

subsection \<open>The removal pass as the specification words it\<close>

text \<open>
  Step 2 of the reconciliation in the specification: an entry is removed when its identity
  (the folder name, compared without regard to case) is that of no configured descriptor;
  the other entries stay, in their order.
\<close>

definition spec_remove_absent :: "GameSettings list \<Rightarrow> games \<Rightarrow> games" where
  "spec_remove_absent cfg xs =
     filter (\<lambda>e. \<exists>c \<in> set cfg. iequals (FolderName (snd e)) (FolderName c)) xs"

subsection \<open>Conditions on states and configurations\<close>

text \<open>
  The nodes of the list have pairwise different addresses, all handed out already: what a
  \<^verbatim>\<open>std::list\<close> guarantees.
\<close>

definition nodes_ok :: "LootState \<Rightarrow> bool" where
  "nodes_ok st \<longleftrightarrow>
     distinct (map fst (installedGames st)) \<and> (\<forall>e \<in> set (installedGames st). fst e < fresh st)"

text \<open>The folder name of a descriptor as \<open>iequals\<close> sees it.\<close>

definition folder_key :: "GameSettings \<Rightarrow> string" where
  "folder_key gs = map to_upper (FolderName gs)"

text \<open>
  Every installed game whose folder name equals that of some configured game without
  regard to case has exactly the folder name of a configured game.
\<close>

definition spelled_as_configured :: "games \<Rightarrow> GameSettings list \<Rightarrow> bool" where
  "spelled_as_configured xs cfg \<longleftrightarrow>
     (\<forall>e \<in> set xs. (\<exists>c \<in> set cfg. iequals (FolderName (snd e)) (FolderName c)) \<longrightarrow>
        FolderName (snd e) \<in> FolderName ` set cfg)"

text \<open>
  What the first loop of \<open>load\<close> makes of a list in which every descriptor finds an entry:
  the first entry of each folder key gets the fields of the last descriptor with that key
  among those done; every other entry stays as it is. \<open>seen\<close> holds the keys of the
  entries further to the front.
\<close>

definition last_with :: "string \<Rightarrow> GameSettings list \<Rightarrow> GameSettings option" where
  "last_with k ds = List.find (\<lambda>d. folder_key d = k) (rev ds)"

definition settle_entry :: "GameSettings list \<Rightarrow> Game \<Rightarrow> Game" where
  "settle_entry ds g = (case last_with (folder_key g) ds of None \<Rightarrow> g | Some d \<Rightarrow> set_fields d g)"

fun settle :: "GameSettings list \<Rightarrow> string set \<Rightarrow> games \<Rightarrow> games" where
  "settle ds seen [] = []"
| "settle ds seen ((n, g) # xs) =
     (if folder_key g \<in> seen then (n, g) else (n, settle_entry ds g))
       # settle ds (insert (folder_key g) seen) xs"

text \<open>\<^verbatim>\<open>std::find\<close> and the setters in one function on the list, without addresses.\<close>

fun update_first :: "GameSettings \<Rightarrow> games \<Rightarrow> games option" where
  "update_first d [] = None"
| "update_first d ((n, g) # xs) =
     (if Game_eq d g then Some ((n, set_fields d g) # xs)
      else map_option ((#) (n, g)) (update_first d xs))"

abbreviation folder_keys :: "games \<Rightarrow> string set" where
  "folder_keys xs \<equiv> (\<lambda>e. folder_key (snd e)) ` set xs"

text \<open>
  What holds during the first loop of \<open>load\<close> once the descriptors in \<open>past\<close> are done, when
  the constructor keeps the configured path of each game constructed so far: the loop would
  change nothing if it ran over \<open>past\<close> again, and every descriptor of \<open>past\<close> that is
  installed has an entry.
\<close>

definition first_pass_inv :: "env \<Rightarrow> GameSettings list \<Rightarrow> GameSettings list \<Rightarrow> LootState \<Rightarrow> bool" where
  "first_pass_inv env cfg past st \<longleftrightarrow>
     nodes_ok st \<and>
     settle past {} (installedGames st) = installedGames st \<and>
     (\<forall>d \<in> set past. IsInstalled env d \<longrightarrow> folder_key d \<in> folder_keys (installedGames st)) \<and>
     spelled_as_configured (installedGames st) cfg"

subsection \<open>Concrete sessions\<close>

text \<open>
  A descriptor with the given folder name and path, collaborators that find every game
  installed, keep the configured path and initialise without error, and a configuration
  with the given games, default game and last game.
\<close>

definition descriptor :: "string \<Rightarrow> string \<Rightarrow> GameSettings" where
  "descriptor folder path =
     \<lparr>FolderName = folder, Name = folder, Master = False, RepoURL = [], RepoBranch = [],
      GamePath = path, RegistryKey = []\<rparr>"

definition all_installed :: env where
  "all_installed = \<lparr>IsInstalled = (\<lambda>gs. True), ctorGamePath = GamePath, Init_what = (\<lambda>g. None)\<rparr>"

definition configuration :: "string list \<Rightarrow> string \<Rightarrow> string \<Rightarrow> LootSettings" where
  "configuration folders default_game last_game =
     \<lparr>gameSettings = map (\<lambda>f. descriptor f []) folders, game = default_game, lastGame = last_game\<rparr>"

text \<open>A session started with the games \<open>A\<close> and \<open>B\<close> configured: \<open>A\<close> becomes current.\<close>

definition session_A_B :: LootState where
  "session_A_B =
     snd (load all_installed (configuration [''A'', ''B''] ''auto'' ''auto'')
            (LootState_ctor (configuration [] ''auto'' ''auto'')))"

text \<open>A session with \<open>A\<close> and \<open>Skyrim\<close> configured.\<close>

definition session_A_Skyrim :: LootState where
  "session_A_Skyrim =
     snd (load all_installed (configuration [''A'', ''Skyrim''] ''auto'' ''auto'')
            (LootState_ctor (configuration [] ''auto'' ''auto'')))"

text \<open>A session with \<open>A\<close> and \<open>B\<close> installed and \<open>B\<close> the configured default game.\<close>

definition session_default_B :: LootState where
  "session_default_B =
     snd (load all_installed (configuration [''A'', ''B''] ''B'' ''auto'')
            (LootState_ctor (configuration [] ''auto'' ''auto'')))"

text \<open>Collaborators whose constructor finds each game under \<open>C:/Games/\<close>.\<close>

definition detecting :: env where
  "detecting =
     \<lparr>IsInstalled = (\<lambda>gs. True), ctorGamePath = (\<lambda>gs. ''C:/Games/'' @ FolderName gs),
      Init_what = (\<lambda>g. None)\<rparr>"

text \<open>The stored settings with every path blanked: what storing a path cannot change.\<close>

definition without_paths :: "GameSettings list \<Rightarrow> GameSettings list" where
  "without_paths gs = map (\<lambda>s. s\<lparr>GamePath := []\<rparr>) gs"

section \<open>Evaluation of the concrete sessions\<close>

lemmas eval_defs =
  load_def select_and_init_def reconcile_def load_game_def LootSettings_load_def LootState_ctor_def
  configuration_def descriptor_def all_installed_def Game_eq_def iequals_def to_upper_def
  add_game_def push_back_def Game_ctor_def updateStoredGamePathSetting_def
  extract_Nil_code extract_Cons_code selectGame_def Game_Init_def set_fields_def
  changeGame_def getCurrentGame_def Let_def

lemma session_A_B_eq:
  "session_A_B =
     \<lparr>gameSettings = [descriptor ''A'' [], descriptor ''B'' []], game = ''auto'', lastGame = ''auto'',
      installedGames = [(0, descriptor ''A'' []), (1, descriptor ''B'' [])], fresh = 2,
      currentGame = Node 0, unappliedChangeCounter = 0, initErrors = []\<rparr>"
  by (simp add: session_A_B_def eval_defs)

lemma session_A_Skyrim_eq:
  "session_A_Skyrim =
     \<lparr>gameSettings = [descriptor ''A'' [], descriptor ''Skyrim'' []], game = ''auto'',
      lastGame = ''auto'',
      installedGames = [(0, descriptor ''A'' []), (1, descriptor ''Skyrim'' [])], fresh = 2,
      currentGame = Node 0, unappliedChangeCounter = 0, initErrors = []\<rparr>"
  by (simp add: session_A_Skyrim_def eval_defs)

lemma session_default_B_eq:
  "session_default_B =
     \<lparr>gameSettings = [descriptor ''A'' [], descriptor ''B'' []], game = ''B'', lastGame = ''auto'',
      installedGames = [(0, descriptor ''A'' []), (1, descriptor ''B'' [])], fresh = 2,
      currentGame = Node 1, unappliedChangeCounter = 0, initErrors = []\<rparr>"
  by (simp add: session_default_B_def eval_defs)

section \<open>Frame lemmas\<close>

lemma snd_Game_Init [simp]: "snd (Game_Init env st) = st"
  by (simp add: Game_Init_def split: option.splits)

lemma updateStored_frame [simp]:
  "installedGames (updateStoredGamePathSetting g st) = installedGames st"
  "fresh (updateStoredGamePathSetting g st) = fresh st"
  "currentGame (updateStoredGamePathSetting g st) = currentGame st"
  "unappliedChangeCounter (updateStoredGamePathSetting g st) = unappliedChangeCounter st"
  "initErrors (updateStoredGamePathSetting g st) = initErrors st"
  "game (updateStoredGamePathSetting g st) = game st"
  "lastGame (updateStoredGamePathSetting g st) = lastGame st"
  by (simp_all add: updateStoredGamePathSetting_def split: option.splits)

lemma add_game_frame [simp]:
  "installedGames (add_game env gs st) = installedGames st @ [(fresh st, Game_ctor env gs)]"
  "fresh (add_game env gs st) = Suc (fresh st)"
  "currentGame (add_game env gs st) = currentGame st"
  "unappliedChangeCounter (add_game env gs st) = unappliedChangeCounter st"
  "initErrors (add_game env gs st) = initErrors st"
  "game (add_game env gs st) = game st"
  "lastGame (add_game env gs st) = lastGame st"
  by (simp_all add: add_game_def push_back_def Let_def)

lemma load_game_frame [simp]:
  "currentGame (fst (load_game env gs acc)) = currentGame (fst acc)"
  "unappliedChangeCounter (fst (load_game env gs acc)) = unappliedChangeCounter (fst acc)"
  "initErrors (fst (load_game env gs acc)) = initErrors (fst acc)"
  "game (fst (load_game env gs acc)) = game (fst acc)"
  "lastGame (fst (load_game env gs acc)) = lastGame (fst acc)"
  by (simp_all add: load_game_def Let_def split: iterator.splits)

lemma load_games_frame [simp]:
  "currentGame (fst (load_games env cfg acc)) = currentGame (fst acc)"
  "unappliedChangeCounter (fst (load_games env cfg acc)) = unappliedChangeCounter (fst acc)"
  "initErrors (fst (load_games env cfg acc)) = initErrors (fst acc)"
  "game (fst (load_games env cfg acc)) = game (fst acc)"
  "lastGame (fst (load_games env cfg acc)) = lastGame (fst acc)"
  by (induction cfg arbitrary: acc; simp)+

lemma reconcile_frame [simp]:
  "currentGame (reconcile env st) = currentGame st"
  "unappliedChangeCounter (reconcile env st) = unappliedChangeCounter st"
  "initErrors (reconcile env st) = initErrors st"
  "game (reconcile env st) = game st"
  "lastGame (reconcile env st) = lastGame st"
  by (simp_all add: reconcile_def Let_def)

lemma selectGame_frame [simp]:
  "installedGames (snd (selectGame p st)) = installedGames st"
  "fresh (snd (selectGame p st)) = fresh st"
  "gameSettings (snd (selectGame p st)) = gameSettings st"
  "unappliedChangeCounter (snd (selectGame p st)) = unappliedChangeCounter st"
  "initErrors (snd (selectGame p st)) = initErrors st"
  "game (snd (selectGame p st)) = game st"
  "lastGame (snd (selectGame p st)) = lastGame st"
  by (simp_all add: selectGame_def Let_def)

lemma snd_select_and_init:
  "snd (select_and_init env st) =
     (if currentGame st = End then snd (selectGame [] st) else st)"
  by (simp add: select_and_init_def Let_def split: outcome.splits)

lemma snd_load:
  "snd (load env s st) =
     (let st1 = reconcile env (LootSettings_load s st)
      in if currentGame st1 = End then snd (selectGame [] st1) else st1)"
  by (simp add: load_def select_and_init_def Let_def split: outcome.splits)

lemma load_counter [simp]:
  "unappliedChangeCounter (snd (load env s st)) = unappliedChangeCounter st"
  by (simp add: snd_load Let_def LootSettings_load_def)

lemma detect_games_counter [simp]:
  "unappliedChangeCounter (detect_games env cfg st) = unappliedChangeCounter st"
  by (induction cfg arbitrary: st) simp_all

lemma init_counter [simp]:
  "unappliedChangeCounter (init d f env c st) = unappliedChangeCounter st"
  by (simp add: init_def Let_def record_error_def LootSettings_load_def
      split: outcome.splits option.splits settings_file.splits)

lemma changeGame_counter [simp]:
  "unappliedChangeCounter (snd (changeGame env f st)) = unappliedChangeCounter st"
  by (simp add: changeGame_def)

lemma save_counter [simp]:
  "unappliedChangeCounter (snd (save st)) = unappliedChangeCounter st"
  by (simp add: save_def split: option.splits)

lemma reachable_counter: "reachable env st \<Longrightarrow> 0 \<le> unappliedChangeCounter st"
  by (induction rule: reachable.induct)
     (simp_all add: LootState_ctor_def incrementUnappliedChangeCounter_def
        decrementUnappliedChangeCounter_def)

section \<open>The unapplied change counter\<close>

text \<open>
  Claim C9. The unapplied change counter is never negative in a reachable state;
  decrementing at zero changes nothing; from zero, three increments and two decrements
  leave one; and \<open>hasUnappliedChanges\<close> holds exactly when the counter is positive.
\<close>

theorem unappliedChangeCounter_saturates:
  "(reachable env st \<longrightarrow> 0 \<le> unappliedChangeCounter st) \<and>
   (unappliedChangeCounter st = 0 \<longrightarrow> decrementUnappliedChangeCounter st = st) \<and>
   (unappliedChangeCounter st = 0 \<longrightarrow>
      unappliedChangeCounter
        (decrementUnappliedChangeCounter (decrementUnappliedChangeCounter
          (incrementUnappliedChangeCounter (incrementUnappliedChangeCounter
            (incrementUnappliedChangeCounter st))))) = 1) \<and>
   (hasUnappliedChanges st \<longleftrightarrow> unappliedChangeCounter st > 0)"
  by (simp add: reachable_counter incrementUnappliedChangeCounter_def
        decrementUnappliedChangeCounter_def hasUnappliedChanges_def)

theorem unappliedChangeCounter_saturates_witness:
  "reachable all_installed session_A_B \<and> unappliedChangeCounter session_A_B = 0 \<and>
   decrementUnappliedChangeCounter session_A_B = session_A_B \<and>
   unappliedChangeCounter
     (decrementUnappliedChangeCounter (decrementUnappliedChangeCounter
       (incrementUnappliedChangeCounter (incrementUnappliedChangeCounter
         (incrementUnappliedChangeCounter session_A_B))))) = 1 \<and>
   \<not> hasUnappliedChanges session_A_B \<and>
   hasUnappliedChanges (incrementUnappliedChangeCounter session_A_B)"
proof -
  have ok: "fst (load all_installed (configuration [''A'', ''B''] ''auto'' ''auto'')
            (LootState_ctor (configuration [] ''auto'' ''auto''))) \<noteq> Undefined"
    by (simp add: eval_defs)
  have r: "reachable all_installed session_A_B"
    unfolding session_A_B_def by (rule reach_load [OF reach_ctor ok])
  have z: "unappliedChangeCounter session_A_B = 0"
    by (simp add: session_A_B_eq)
  show ?thesis
    using r z unappliedChangeCounter_saturates [of all_installed session_A_B]
      unappliedChangeCounter_saturates [of all_installed "incrementUnappliedChangeCounter session_A_B"]
    by (simp add: incrementUnappliedChangeCounter_def)
qed

section \<open>Selecting a game\<close>

lemma find_if_in: "find_if P xs = Node n \<Longrightarrow> \<exists>g. map_of xs n = Some g"
  by (induction P xs rule: find_if.induct) (auto split: if_splits)

lemma list_begin_in: "list_begin xs = Node n \<Longrightarrow> \<exists>g. map_of xs n = Some g"
  by (cases xs) auto

lemma list_begin_End: "list_begin xs = End \<longleftrightarrow> xs = []"
  by (cases xs) auto

lemma find_if_True: "find_if (\<lambda>g. True) xs = list_begin xs"
  by (cases xs) auto

lemma find_if_End: "find_if P xs = End \<longleftrightarrow> (\<forall>e \<in> set xs. \<not> P (snd e))"
  by (induction P xs rule: find_if.induct) auto

lemma selectGame_outcome:
  "fst (selectGame p st) =
     (if installedGames st = [] then Throws (GameDetectionError ''None of the supported games were detected.'')
      else Returns ())"
  by (cases "installedGames st") (auto simp: selectGame_def Let_def list_begin_End)

lemma selectGame_valid:
  assumes "installedGames st \<noteq> []"
  shows "\<exists>g. deref (installedGames st) (currentGame (snd (selectGame p st))) = Some g"
proof -
  let ?c = "currentGame (snd (selectGame p st))"
  have "?c \<noteq> End"
    using assms by (auto simp: selectGame_def Let_def list_begin_End)
  then obtain n where n: "?c = Node n" by (cases ?c) auto
  then have "\<exists>g. map_of (installedGames st) n = Some g"
    by (auto simp: selectGame_def Let_def split: if_splits dest: find_if_in list_begin_in)
  with n show ?thesis by simp
qed

text \<open>
  Claim C6. \<open>selectGame\<close> throws \<^verbatim>\<open>GameDetectionError\<close> when no game is installed, and that
  is its only failure: with at least one installed game it returns and leaves the selection
  on an entry of the list, whatever the preferred game and the settings. \<open>load\<close> does not
  catch the exception: when the selection is unset and reconciliation leaves no game, the
  caller of \<open>load\<close> gets it.
\<close>

theorem selectGame_fails_only_when_empty:
  "(installedGames st = [] \<longrightarrow>
      fst (selectGame preferred st) =
        Throws (GameDetectionError ''None of the supported games were detected.'')) \<and>
   (installedGames st \<noteq> [] \<longrightarrow>
      fst (selectGame preferred st) = Returns () \<and>
      (\<exists>g. deref (installedGames st) (currentGame (snd (selectGame preferred st))) = Some g)) \<and>
   (currentGame st = End \<and> installedGames (reconcile env (LootSettings_load settings st)) = [] \<longrightarrow>
      fst (load env settings st) =
        Throws (GameDetectionError ''None of the supported games were detected.''))"
  by (simp add: selectGame_outcome selectGame_valid load_def select_and_init_def Let_def
        LootSettings_load_def)

theorem selectGame_fails_only_when_empty_witness:
  "installedGames (LootState_ctor (configuration [] ''auto'' ''auto'')) = [] \<and>
   fst (selectGame [] (LootState_ctor (configuration [] ''auto'' ''auto''))) =
     Throws (GameDetectionError ''None of the supported games were detected.'') \<and>
   installedGames session_A_B \<noteq> [] \<and>
   fst (selectGame ''B'' session_A_B) = Returns () \<and>
   (\<exists>g. deref (installedGames session_A_B) (currentGame (snd (selectGame ''B'' session_A_B))) = Some g) \<and>
   fst (load all_installed (configuration [] ''auto'' ''auto'')
         (LootState_ctor (configuration [] ''auto'' ''auto''))) =
     Throws (GameDetectionError ''None of the supported games were detected.'')"
proof -
  let ?c = "LootState_ctor (configuration [] ''auto'' ''auto'')"
  have e: "installedGames ?c = []" "currentGame ?c = End"
    by (simp_all add: LootState_ctor_def)
  have r: "installedGames (reconcile all_installed (LootSettings_load (configuration [] ''auto'' ''auto'') ?c)) = []"
    by (simp add: eval_defs)
  have ne: "installedGames session_A_B \<noteq> []"
    by (simp add: session_A_B_eq)
  show ?thesis
    using e r ne
      selectGame_fails_only_when_empty [of ?c "[]" all_installed "configuration [] ''auto'' ''auto''"]
      selectGame_fails_only_when_empty [of session_A_B "''B''"]
    by simp
qed

lemma find_if_cong_set:
  "\<forall>e \<in> set xs. P (snd e) = Q (snd e) \<Longrightarrow> find_if P xs = find_if Q xs"
  by (induction xs) auto

lemma iequals_refl [simp]: "iequals a a"
  by (simp add: iequals_def)

text \<open>
  Claim C2, as stated, fails. With \<open>A\<close> and \<open>B\<close> installed, \<open>B\<close> the configured default and
  a preferred game \<open>C\<close> that is not installed, the chain of the specification moves on to the
  configured default and selects \<open>B\<close>; \<open>selectGame\<close> consults the settings only when no
  preferred game is given, and falls back to the first installed game, \<open>A\<close>.
\<close>

theorem selectGame_not_spec_chain:
  "currentGame (snd (selectGame ''C'' session_default_B)) = Node 0 \<and>
   spec_select ''C'' (game session_default_B) (lastGame session_default_B)
     (installedGames session_default_B) = Node 1 \<and>
   currentGame (snd (selectGame ''C'' session_default_B)) \<noteq>
     spec_select ''C'' (game session_default_B) (lastGame session_default_B)
       (installedGames session_default_B)"
  by (simp add: session_default_B_eq selectGame_def spec_select_def spec_matches_def
        descriptor_def iequals_def to_upper_def)

text \<open>
  Claim C2, amended. With at least one installed game, \<open>selectGame\<close> returns, and works with
  one key: the preferred game if it is not empty, otherwise the configured default if that
  is not \<open>auto\<close>, otherwise the last game if that is not \<open>auto\<close>, otherwise the empty string.
  If the key is not empty and some entry has exactly the key as its folder name, the first
  such entry is selected. If the key is empty, or no entry has the key as its folder name
  even without regard to case, the first entry of the list is selected. An unmatched key
  is never replaced by the next one of the chain.
\<close>

theorem selectGame_preference:
  "installedGames st \<noteq> [] \<longrightarrow>
   (let key = (if preferred \<noteq> [] then preferred
               else if game st \<noteq> ''auto'' then game st
               else if lastGame st \<noteq> ''auto'' then lastGame st
               else []);
        chosen = currentGame (snd (selectGame preferred st))
    in fst (selectGame preferred st) = Returns () \<and>
       (key \<noteq> [] \<and> (\<exists>e \<in> set (installedGames st). FolderName (snd e) = key) \<longrightarrow>
          chosen = find_if (\<lambda>g. FolderName g = key) (installedGames st) \<and> chosen \<noteq> End) \<and>
       (key = [] \<or> \<not> (\<exists>e \<in> set (installedGames st). iequals key (FolderName (snd e))) \<longrightarrow>
          chosen = list_begin (installedGames st)))"
proof
  assume ne: "installedGames st \<noteq> []"
  define key where "key = (if preferred \<noteq> [] then preferred
               else if game st \<noteq> ''auto'' then game st
               else if lastGame st \<noteq> ''auto'' then lastGame st
               else [])"
  define found where "found = find_if (\<lambda>g. key = [] \<or> key = FolderName g) (installedGames st)"
  have chosen: "currentGame (snd (selectGame preferred st)) =
      (if found = End then list_begin (installedGames st) else found)"
    by (simp add: selectGame_def Let_def key_def found_def)
  have ok: "fst (selectGame preferred st) = Returns ()"
    using ne by (simp add: selectGame_outcome)
  have exact: "currentGame (snd (selectGame preferred st)) = find_if (\<lambda>g. FolderName g = key) (installedGames st)
      \<and> currentGame (snd (selectGame preferred st)) \<noteq> End"
    if "key \<noteq> []" and "\<exists>e \<in> set (installedGames st). FolderName (snd e) = key"
  proof -
    have "found = find_if (\<lambda>g. FolderName g = key) (installedGames st)"
      unfolding found_def using that(1) by (intro find_if_cong_set) auto
    moreover have "find_if (\<lambda>g. FolderName g = key) (installedGames st) \<noteq> End"
      using that(2) by (simp add: find_if_End)
    ultimately show ?thesis by (simp add: chosen)
  qed
  have fallback: "currentGame (snd (selectGame preferred st)) = list_begin (installedGames st)"
    if "key = [] \<or> \<not> (\<exists>e \<in> set (installedGames st). iequals key (FolderName (snd e)))"
  proof (cases "key = []")
    case True
    then have "found = list_begin (installedGames st)"
      by (simp add: found_def find_if_True)
    then show ?thesis by (simp add: chosen)
  next
    case False
    with that have "\<forall>e \<in> set (installedGames st). key \<noteq> FolderName (snd e)"
      by auto
    then have "found = End"
      using False by (simp add: found_def find_if_End)
    then show ?thesis by (simp add: chosen)
  qed
  show "let key = (if preferred \<noteq> [] then preferred
               else if game st \<noteq> ''auto'' then game st
               else if lastGame st \<noteq> ''auto'' then lastGame st
               else []);
        chosen = currentGame (snd (selectGame preferred st))
    in fst (selectGame preferred st) = Returns () \<and>
       (key \<noteq> [] \<and> (\<exists>e \<in> set (installedGames st). FolderName (snd e) = key) \<longrightarrow>
          chosen = find_if (\<lambda>g. FolderName g = key) (installedGames st) \<and> chosen \<noteq> End) \<and>
       (key = [] \<or> \<not> (\<exists>e \<in> set (installedGames st). iequals key (FolderName (snd e))) \<longrightarrow>
          chosen = list_begin (installedGames st))"
    unfolding Let_def key_def [symmetric] using ok exact fallback by blast
qed

theorem selectGame_preference_witness:
  "installedGames session_default_B \<noteq> [] \<and>
   fst (selectGame [] session_default_B) = Returns () \<and>
   currentGame (snd (selectGame [] session_default_B)) = Node 1 \<and>
   currentGame (snd (selectGame ''A'' session_default_B)) = Node 0 \<and>
   currentGame (snd (selectGame ''C'' session_default_B)) = Node 0 \<and>
   currentGame (snd (selectGame [] (session_default_B\<lparr>game := ''auto'', lastGame := ''B''\<rparr>))) = Node 1 \<and>
   currentGame (snd (selectGame [] (session_default_B\<lparr>game := ''auto''\<rparr>))) = Node 0"
proof -
  have ne: "installedGames session_default_B \<noteq> []"
    by (simp add: session_default_B_eq)
  have a: "currentGame (snd (selectGame [] session_default_B)) = Node 1
      \<and> fst (selectGame [] session_default_B) = Returns ()"
    using selectGame_preference [of session_default_B "[]"]
    by (simp add: session_default_B_eq descriptor_def Let_def)
  have b: "currentGame (snd (selectGame ''A'' session_default_B)) = Node 0"
    using selectGame_preference [of session_default_B "''A''"]
    by (simp add: session_default_B_eq descriptor_def Let_def)
  have c: "currentGame (snd (selectGame ''C'' session_default_B)) = Node 0"
    using selectGame_preference [of session_default_B "''C''"]
    by (simp add: session_default_B_eq descriptor_def iequals_def to_upper_def Let_def)
  have d: "currentGame (snd (selectGame [] (session_default_B\<lparr>game := ''auto'', lastGame := ''B''\<rparr>))) = Node 1"
    using selectGame_preference [of "session_default_B\<lparr>game := ''auto'', lastGame := ''B''\<rparr>" "[]"]
    by (simp add: session_default_B_eq descriptor_def Let_def)
  have e: "currentGame (snd (selectGame [] (session_default_B\<lparr>game := ''auto''\<rparr>))) = Node 0"
    using selectGame_preference [of "session_default_B\<lparr>game := ''auto''\<rparr>" "[]"]
    by (simp add: session_default_B_eq descriptor_def Let_def)
  show ?thesis using ne a b c d e by simp
qed

section \<open>Reading through the selection\<close>

lemma getCurrentGame_Node:
  "currentGame st = Node n \<Longrightarrow> map_of (installedGames st) n = Some g
     \<Longrightarrow> getCurrentGame st = Returns (n, g)"
  by (simp add: getCurrentGame_def)

lemma getCurrentGame_End: "currentGame st = End \<Longrightarrow> getCurrentGame st = Undefined"
  by (simp add: getCurrentGame_def)

lemma changeGame_found:
  assumes "find_if (\<lambda>g. iequals folder (FolderName g)) (installedGames st) = Node n"
  shows "currentGame (snd (changeGame env folder st)) = Node n"
    and "fst (changeGame env folder st) \<noteq> Undefined"
  using assms find_if_in [OF assms]
  by (auto simp: changeGame_def Game_Init_def split: option.splits)

lemma changeGame_not_found:
  assumes "find_if (\<lambda>g. iequals folder (FolderName g)) (installedGames st) = End"
  shows "changeGame env folder st = (Undefined, st\<lparr>currentGame := End\<rparr>)"
  using assms by (simp add: changeGame_def Game_Init_def)

text \<open>
  Claim C4, on the code. \<open>getCurrentGame\<close> reads through \<^verbatim>\<open>currentGame_\<close> without a test.
  On a state just constructed, and on the state \<open>init\<close> leaves when no game is installed,
  the selection is \<^verbatim>\<open>end()\<close> and the read is undefined behaviour: no exception is thrown.
\<close>

theorem getCurrentGame_unselected:
  "getCurrentGame (LootState_ctor base) = Undefined \<and>
   currentGame (init None NoFile all_installed [] (LootState_ctor (configuration [] ''auto'' ''auto''))) = End \<and>
   getCurrentGame (init None NoFile all_installed [] (LootState_ctor (configuration [] ''auto'' ''auto''))) = Undefined"
  by (simp add: getCurrentGame_def LootState_ctor_def init_def selectGame_def configuration_def record_error_def)

text \<open>
  Claim C3, on the code. In a session with \<open>A\<close> and \<open>Skyrim\<close> installed and \<open>A\<close> current,
  \<open>changeGame\<close> with the folder name \<open>Oblivion\<close> sets the selection to \<^verbatim>\<open>end()\<close> and calls
  \<^verbatim>\<open>Init\<close> through it: undefined behaviour, no exception thrown, and the earlier
  selection is lost.
\<close>

theorem changeGame_unknown_folder:
  "currentGame session_A_Skyrim = Node 0 \<and>
   getCurrentGame session_A_Skyrim = Returns (0, descriptor ''A'' []) \<and>
   fst (changeGame all_installed ''Oblivion'' session_A_Skyrim) = Undefined \<and>
   currentGame (snd (changeGame all_installed ''Oblivion'' session_A_Skyrim)) = End \<and>
   getCurrentGame (snd (changeGame all_installed ''Oblivion'' session_A_Skyrim)) = Undefined"
  by (simp add: session_A_Skyrim_eq eval_defs)

lemma changeGame_selects:
  "currentGame (snd (changeGame env folder st)) =
     find_if (\<lambda>g. iequals folder (FolderName g)) (installedGames st)"
  by (simp add: changeGame_def)

lemma changeGame_skyrim:
  "changeGame all_installed ''skyrim'' session_A_Skyrim =
     (Returns (), session_A_Skyrim\<lparr>currentGame := Node 1\<rparr>)"
  by (simp add: session_A_Skyrim_eq eval_defs)

section \<open>The selection across a reload\<close>

lemma load_selection_valid:
  assumes "fst (load env settings st) \<noteq> Undefined"
  shows "(currentGame (snd (load env settings st)) = End \<and>
            installedGames (snd (load env settings st)) = []) \<or>
         (\<exists>g. deref (installedGames (snd (load env settings st)))
                 (currentGame (snd (load env settings st))) = Some g)"
proof -
  let ?st1 = "reconcile env (LootSettings_load settings st)"
  show ?thesis
  proof (cases "currentGame ?st1 = End")
    case False
    with assms have "deref (installedGames ?st1) (currentGame ?st1) \<noteq> None"
      by (auto simp: load_def select_and_init_def Game_Init_def split: option.splits)
    with False show ?thesis
      by (auto simp: snd_load)
  next
    case True
    show ?thesis
    proof (cases "installedGames ?st1 = []")
      case empty: True
      with True show ?thesis
        by (simp add: snd_load selectGame_def)
    next
      case False
      from selectGame_valid [OF this, of "[]"] True show ?thesis
        by (simp add: snd_load)
    qed
  qed
qed

text \<open>
  Unless it runs into undefined behaviour, \<open>load\<close> leaves the selection on an entry of the
  list, or at \<^verbatim>\<open>end()\<close> with the list empty (lemma above). But it can run into it:

  Claim C1, on the code. The session with \<open>A\<close> and \<open>B\<close> installed and \<open>A\<close> current is
  reachable. \<open>load\<close> with a configuration that holds only \<open>B\<close> erases the node of \<open>A\<close>;
  the selection still holds its address, so it differs from \<^verbatim>\<open>end()\<close>, no game is
  selected anew, and \<^verbatim>\<open>Init\<close> is called through the invalid iterator.
\<close>

theorem load_leaves_selection_dangling:
  "reachable all_installed session_A_B \<and>
   currentGame session_A_B = Node 0 \<and>
   deref (installedGames session_A_B) (currentGame session_A_B) = Some (descriptor ''A'' []) \<and>
   load all_installed (configuration [''B''] ''auto'' ''auto'') session_A_B =
     (Undefined,
      session_A_B\<lparr>gameSettings := [descriptor ''B'' []],
                  installedGames := [(1, descriptor ''B'' [])]\<rparr>) \<and>
   currentGame (snd (load all_installed (configuration [''B''] ''auto'' ''auto'') session_A_B)) = Node 0 \<and>
   deref (installedGames (snd (load all_installed (configuration [''B''] ''auto'' ''auto'') session_A_B)))
     (currentGame (snd (load all_installed (configuration [''B''] ''auto'' ''auto'') session_A_B))) = None"
proof -
  have ok: "fst (load all_installed (configuration [''A'', ''B''] ''auto'' ''auto'')
            (LootState_ctor (configuration [] ''auto'' ''auto''))) \<noteq> Undefined"
    by (simp add: eval_defs)
  have r: "reachable all_installed session_A_B"
    unfolding session_A_B_def by (rule reach_load [OF reach_ctor ok])
  have l: "load all_installed (configuration [''B''] ''auto'' ''auto'') session_A_B =
     (Undefined,
      session_A_B\<lparr>gameSettings := [descriptor ''B'' []],
                  installedGames := [(1, descriptor ''B'' [])]\<rparr>)"
    by (simp add: session_A_B_eq eval_defs)
  show ?thesis
    using r by (simp add: l) (simp add: session_A_B_eq)
qed

section \<open>The stored game path\<close>

lemma updateStored_Some:
  assumes "gameSettings st = before @ pos # after"
    and "iequals (FolderName g) (FolderName pos)"
    and "\<forall>s \<in> set before. \<not> iequals (FolderName g) (FolderName s)"
  shows "gameSettings (updateStoredGamePathSetting g st) = before @ pos\<lparr>GamePath := GamePath g\<rparr> # after"
proof -
  have "List.extract (\<lambda>s. iequals (FolderName g) (FolderName s)) (gameSettings st)
      = Some (before, pos, after)"
    using assms by (auto simp: extract_Some_iff)
  then show ?thesis
    by (simp add: updateStoredGamePathSetting_def)
qed

lemma updateStored_cases:
  "(\<exists>before pos after. gameSettings st = before @ pos # after \<and>
       iequals (FolderName g) (FolderName pos) \<and>
       (\<forall>s \<in> set before. \<not> iequals (FolderName g) (FolderName s)) \<and>
       gameSettings (updateStoredGamePathSetting g st) = before @ pos\<lparr>GamePath := GamePath g\<rparr> # after)
   \<or> ((\<forall>s \<in> set (gameSettings st). \<not> iequals (FolderName g) (FolderName s)) \<and>
       updateStoredGamePathSetting g st = st)"
proof (cases "List.extract (\<lambda>s. iequals (FolderName g) (FolderName s)) (gameSettings st)")
  case None
  then have "updateStoredGamePathSetting g st = st"
    by (simp add: updateStoredGamePathSetting_def)
  moreover from None have "\<forall>s \<in> set (gameSettings st). \<not> iequals (FolderName g) (FolderName s)"
    by (auto simp: extract_None_iff)
  ultimately show ?thesis by blast
next
  case (Some t)
  obtain before pos after where t: "t = (before, pos, after)" by (cases t) auto
  with Some have "gameSettings st = before @ pos # after \<and> iequals (FolderName g) (FolderName pos)
      \<and> (\<forall>s \<in> set before. \<not> iequals (FolderName g) (FolderName s))"
    by (auto simp: extract_Some_iff)
  moreover from Some t have "gameSettings (updateStoredGamePathSetting g st)
      = before @ pos\<lparr>GamePath := GamePath g\<rparr> # after"
    by (simp add: updateStoredGamePathSetting_def)
  ultimately show ?thesis by blast
qed

lemma updateStored_without_paths [simp]:
  "without_paths (gameSettings (updateStoredGamePathSetting g st)) = without_paths (gameSettings st)"
  using updateStored_cases [of st g] by (auto simp: without_paths_def)

lemma add_game_gameSettings:
  "gameSettings (add_game env gs st) =
     gameSettings (updateStoredGamePathSetting (Game_ctor env gs) st)"
  by (simp add: add_game_def push_back_def Let_def updateStoredGamePathSetting_def
        split: option.splits)

lemma load_game_without_paths [simp]:
  "without_paths (gameSettings (fst (load_game env gs acc))) = without_paths (gameSettings (fst acc))"
  by (simp add: load_game_def Let_def add_game_gameSettings split: iterator.splits)

lemma load_games_without_paths [simp]:
  "without_paths (gameSettings (fst (load_games env cfg acc))) = without_paths (gameSettings (fst acc))"
  by (induction cfg arbitrary: acc) simp_all

lemma load_game_fresh:
  "fresh (fst acc) \<le> fresh (fst (load_game env gs acc))"
  "fresh (fst (load_game env gs acc)) = fresh (fst acc) \<Longrightarrow>
     gameSettings (fst (load_game env gs acc)) = gameSettings (fst acc)"
  by (auto simp: load_game_def Let_def split: iterator.splits if_splits)

lemma load_games_fresh_le: "fresh (fst acc) \<le> fresh (fst (load_games env cfg acc))"
proof (induction cfg arbitrary: acc)
  case Nil
  show ?case by simp
next
  case (Cons gs cfg)
  have "fresh (fst acc) \<le> fresh (fst (load_game env gs acc))"
    by (rule load_game_fresh)
  also have "\<dots> \<le> fresh (fst (load_games env cfg (load_game env gs acc)))"
    by (rule Cons.IH)
  finally show ?case by simp
qed

lemma load_games_fresh_same:
  "fresh (fst (load_games env cfg acc)) = fresh (fst acc) \<Longrightarrow>
     gameSettings (fst (load_games env cfg acc)) = gameSettings (fst acc)"
proof (induction cfg arbitrary: acc)
  case Nil
  show ?case by simp
next
  case (Cons gs cfg)
  have a: "fresh (fst acc) \<le> fresh (fst (load_game env gs acc))"
    by (rule load_game_fresh)
  have b: "fresh (fst (load_game env gs acc)) \<le> fresh (fst (load_games env cfg (load_game env gs acc)))"
    by (rule load_games_fresh_le)
  from Cons.prems a b have eq1: "fresh (fst (load_game env gs acc)) = fresh (fst acc)"
    and eq2: "fresh (fst (load_games env cfg (load_game env gs acc))) = fresh (fst (load_game env gs acc))"
    by simp_all
  show ?case
    using Cons.IH [OF eq2] load_game_fresh(2) [OF eq1] by simp
qed





section \<open>Reconciliation\<close>

lemma remove_deleted_filter:
  "remove_deleted folders xs = filter (\<lambda>e. FolderName (snd e) \<in> folders) xs"
  by (induction folders xs rule: remove_deleted.induct) auto

lemma load_game_folders [simp]:
  "snd (load_game env gs acc) = insert (FolderName gs) (snd acc)"
  by (simp add: load_game_def Let_def)

lemma load_games_folders:
  "snd (load_games env cfg acc) = snd acc \<union> FolderName ` set cfg"
  by (induction cfg arbitrary: acc) auto

lemma find_if_Node_split:
  assumes "find_if P xs = Node n" and "distinct (map fst xs)"
  shows "\<exists>before g after. xs = before @ (n, g) # after \<and> P g \<and>
           (\<forall>e \<in> set before. \<not> P (snd e)) \<and>
           modify_at n f xs = before @ (n, f g) # after"
  using assms
proof (induction xs)
  case Nil
  then show ?case by simp
next
  case (Cons x xs)
  obtain m h where x: "x = (m, h)" by (cases x) auto
  show ?case
  proof (cases "P h")
    case True
    with Cons.prems x have "n = m" by simp
    with True x have "x # xs = [] @ (n, h) # xs \<and> P h \<and> (\<forall>e \<in> set []. \<not> P (snd e)) \<and>
        modify_at n f (x # xs) = [] @ (n, f h) # xs"
      by simp
    then show ?thesis by blast
  next
    case False
    with Cons.prems x have found: "find_if P xs = Node n" and d: "distinct (map fst xs)"
      and m: "m \<notin> fst ` set xs"
      by auto
    from Cons.IH [OF found d] obtain before g after where
      s: "xs = before @ (n, g) # after" "P g" "\<forall>e \<in> set before. \<not> P (snd e)"
         "modify_at n f xs = before @ (n, f g) # after"
      by blast
    from s(1) m have "m \<noteq> n" by force
    with s x False have "x # xs = (x # before) @ (n, g) # after \<and> P g \<and>
        (\<forall>e \<in> set (x # before). \<not> P (snd e)) \<and>
        modify_at n f (x # xs) = (x # before) @ (n, f g) # after"
      by simp
    then show ?thesis by blast
  qed
qed

lemma load_game_found:
  assumes "distinct (map fst (installedGames st))"
    and "find_if (Game_eq gs) (installedGames st) \<noteq> End"
  shows "\<exists>before n g after.
           installedGames st = before @ (n, g) # after \<and>
           iequals (FolderName g) (FolderName gs) \<and>
           (\<forall>e \<in> set before. \<not> iequals (FolderName (snd e)) (FolderName gs)) \<and>
           fst (load_game env gs (st, folders)) =
             st\<lparr>installedGames := before @ (n, set_fields gs g) # after\<rparr>"
proof -
  from assms(2) obtain n where n: "find_if (Game_eq gs) (installedGames st) = Node n"
    by (cases "find_if (Game_eq gs) (installedGames st)") auto
  from find_if_Node_split [OF n assms(1), of "set_fields gs"] obtain before g after where
    s: "installedGames st = before @ (n, g) # after" "Game_eq gs g"
       "\<forall>e \<in> set before. \<not> Game_eq gs (snd e)"
       "modify_at n (set_fields gs) (installedGames st) = before @ (n, set_fields gs g) # after"
    by blast
  have "fst (load_game env gs (st, folders)) =
      st\<lparr>installedGames := before @ (n, set_fields gs g) # after\<rparr>"
    by (simp add: load_game_def n s(4))
  with s(1,2,3) show ?thesis
    unfolding Game_eq_def by blast
qed

lemma load_game_not_found:
  assumes "find_if (Game_eq gs) (installedGames st) = End"
  shows "fst (load_game env gs (st, folders)) =
           (if IsInstalled env gs then add_game env gs st else st)"
  using assms by (simp add: load_game_def)

lemma load_games_snoc:
  "load_games env (cfg @ [gs]) acc = load_game env gs (load_games env cfg acc)"
  by (induction cfg arbitrary: acc) simp_all

lemma reconcile_installedGames:
  "installedGames (reconcile env st) =
     filter (\<lambda>e. FolderName (snd e) \<in> FolderName ` set (gameSettings st))
       (installedGames (fst (load_games env (gameSettings st) (st, {}))))"
  by (simp add: reconcile_def Let_def remove_deleted_filter load_games_folders)

lemma load_installedGames:
  "installedGames (snd (load env s st)) = installedGames (reconcile env (LootSettings_load s st))"
  by (simp add: snd_load Let_def)

lemma load_games_foldl:
  "load_games env cfg acc = foldl (\<lambda>a d. load_game env d a) acc cfg"
  by (induction cfg arbitrary: acc) simp_all

text \<open>
  The two loops of \<open>load\<close>. One pass of the first loop, in a list whose nodes have pairwise
  different addresses: if some entry has the descriptor's folder name without regard to
  case, the first such entry keeps its place, its address and its folder name and gets the
  descriptor's name, master flag, repository URL and branch, path and registry key; if
  none has, the list is unchanged when the probe finds the game not installed and has the
  new game appended at its end when it does. The loop starts from the list as it is and
  takes the descriptors in the order of the configuration. Afterwards one pass keeps, in
  their order, exactly the entries whose folder name is, letter for letter, the folder name
  of a configured descriptor, and erases the others; the result is the list \<open>load\<close> leaves.
\<close>

lemma reconcile_steps:
  "(distinct (map fst (installedGames st)) \<and> find_if (Game_eq gs) (installedGames st) \<noteq> End \<longrightarrow>
      (\<exists>before n g after.
          installedGames st = before @ (n, g) # after \<and>
          iequals (FolderName g) (FolderName gs) \<and>
          (\<forall>e \<in> set before. \<not> iequals (FolderName (snd e)) (FolderName gs)) \<and>
          installedGames (fst (load_game env gs (st, folders))) =
            before @
            (n, g\<lparr>Name := Name gs, Master := Master gs, RepoURL := RepoURL gs,
                  RepoBranch := RepoBranch gs, GamePath := GamePath gs,
                  RegistryKey := RegistryKey gs\<rparr>) # after)) \<and>
   (find_if (Game_eq gs) (installedGames st) = End \<longrightarrow>
      (\<forall>e \<in> set (installedGames st). \<not> iequals (FolderName (snd e)) (FolderName gs)) \<and>
      installedGames (fst (load_game env gs (st, folders))) =
        (if IsInstalled env gs then installedGames st @ [(fresh st, Game_ctor env gs)]
         else installedGames st)) \<and>
   load_games env cfg (st, folders) = foldl (\<lambda>acc d. load_game env d acc) (st, folders) cfg \<and>
   installedGames (reconcile env st) =
     filter (\<lambda>e. FolderName (snd e) \<in> FolderName ` set (gameSettings st))
       (installedGames (fst (load_games env (gameSettings st) (st, {})))) \<and>
   installedGames (snd (load env settings st)) =
     installedGames (reconcile env (LootSettings_load settings st))"
proof -
  have found: "\<exists>before n g after.
          installedGames st = before @ (n, g) # after \<and>
          iequals (FolderName g) (FolderName gs) \<and>
          (\<forall>e \<in> set before. \<not> iequals (FolderName (snd e)) (FolderName gs)) \<and>
          installedGames (fst (load_game env gs (st, folders))) =
            before @
            (n, g\<lparr>Name := Name gs, Master := Master gs, RepoURL := RepoURL gs,
                  RepoBranch := RepoBranch gs, GamePath := GamePath gs,
                  RegistryKey := RegistryKey gs\<rparr>) # after"
    if "distinct (map fst (installedGames st))" "find_if (Game_eq gs) (installedGames st) \<noteq> End"
  proof -
    from load_game_found [OF that, of env folders] obtain before n g after where
      s: "installedGames st = before @ (n, g) # after"
         "iequals (FolderName g) (FolderName gs)"
         "\<forall>e \<in> set before. \<not> iequals (FolderName (snd e)) (FolderName gs)"
         "fst (load_game env gs (st, folders)) =
             st\<lparr>installedGames := before @ (n, set_fields gs g) # after\<rparr>"
      by blast
    from s(4) have "installedGames (fst (load_game env gs (st, folders))) =
        before @ (n, g\<lparr>Name := Name gs, Master := Master gs, RepoURL := RepoURL gs,
                  RepoBranch := RepoBranch gs, GamePath := GamePath gs,
                  RegistryKey := RegistryKey gs\<rparr>) # after"
      by (simp add: set_fields_def)
    with s(1,2,3) show ?thesis by blast
  qed
  have absent: "(\<forall>e \<in> set (installedGames st). \<not> iequals (FolderName (snd e)) (FolderName gs)) \<and>
      installedGames (fst (load_game env gs (st, folders))) =
        (if IsInstalled env gs then installedGames st @ [(fresh st, Game_ctor env gs)]
         else installedGames st)"
    if "find_if (Game_eq gs) (installedGames st) = End"
    using that load_game_not_found [OF that, of env folders]
    by (simp add: find_if_End Game_eq_def)
  have order: "load_games env cfg (st, folders) =
      foldl (\<lambda>acc d. load_game env d acc) (st, folders) cfg"
    by (rule load_games_foldl)
  show ?thesis
    using found absent order reconcile_installedGames load_installedGames by blast
qed

lemma reconcile_steps_example:
  "installedGames (fst (load_game all_installed (descriptor ''skyrim'' ''D:/Skyrim'') (session_A_Skyrim, {}))) =
     [(0, descriptor ''A'' []),
      (1, (descriptor ''Skyrim'' [])\<lparr>Name := ''skyrim'', GamePath := ''D:/Skyrim''\<rparr>)] \<and>
   installedGames (fst (load_game all_installed (descriptor ''C'' []) (session_A_Skyrim, {}))) =
     [(0, descriptor ''A'' []), (1, descriptor ''Skyrim'' []), (2, descriptor ''C'' [])] \<and>
   installedGames (fst (load_game (all_installed\<lparr>IsInstalled := (\<lambda>gs. False)\<rparr>) (descriptor ''C'' [])
       (session_A_Skyrim, {}))) =
     [(0, descriptor ''A'' []), (1, descriptor ''Skyrim'' [])] \<and>
   installedGames (snd (load all_installed (configuration [''A'', ''C''] ''auto'' ''auto'') session_A_Skyrim)) =
     [(0, descriptor ''A'' []), (2, descriptor ''C'' [])]"
proof -
  let ?st = session_A_Skyrim
  have d: "distinct (map fst (installedGames ?st))"
    by (simp add: session_A_Skyrim_eq)
  have f: "find_if (Game_eq (descriptor ''skyrim'' ''D:/Skyrim'')) (installedGames ?st) \<noteq> End"
    by (simp add: session_A_Skyrim_eq Game_eq_def descriptor_def iequals_def to_upper_def)
  have nf: "find_if (Game_eq (descriptor ''C'' [])) (installedGames ?st) = End"
    by (simp add: session_A_Skyrim_eq Game_eq_def descriptor_def iequals_def to_upper_def)
  from d f reconcile_steps [of ?st "descriptor ''skyrim'' ''D:/Skyrim''" all_installed "{}"]
  obtain before n g after where
    s: "installedGames ?st = before @ (n, g) # after"
       "iequals (FolderName g) (FolderName (descriptor ''skyrim'' ''D:/Skyrim''))"
       "\<forall>e \<in> set before. \<not> iequals (FolderName (snd e)) (FolderName (descriptor ''skyrim'' ''D:/Skyrim''))"
       "installedGames (fst (load_game all_installed (descriptor ''skyrim'' ''D:/Skyrim'') (?st, {}))) =
            before @
            (n, g\<lparr>Name := Name (descriptor ''skyrim'' ''D:/Skyrim''),
                  Master := Master (descriptor ''skyrim'' ''D:/Skyrim''),
                  RepoURL := RepoURL (descriptor ''skyrim'' ''D:/Skyrim''),
                  RepoBranch := RepoBranch (descriptor ''skyrim'' ''D:/Skyrim''),
                  GamePath := GamePath (descriptor ''skyrim'' ''D:/Skyrim''),
                  RegistryKey := RegistryKey (descriptor ''skyrim'' ''D:/Skyrim'')\<rparr>) # after"
    by blast
  from s(1,2,3) have "before = [(0, descriptor ''A'' [])] \<and> n = 1 \<and> g = descriptor ''Skyrim'' [] \<and> after = []"
    by (auto simp: session_A_Skyrim_eq Cons_eq_append_conv descriptor_def iequals_def to_upper_def)
  with s(4) have a: "installedGames (fst (load_game all_installed (descriptor ''skyrim'' ''D:/Skyrim'') (?st, {}))) =
     [(0, descriptor ''A'' []),
      (1, (descriptor ''Skyrim'' [])\<lparr>Name := ''skyrim'', GamePath := ''D:/Skyrim''\<rparr>)]"
    by (simp add: descriptor_def)
  from nf reconcile_steps [of ?st "descriptor ''C'' []" all_installed "{}"]
  have b: "installedGames (fst (load_game all_installed (descriptor ''C'' []) (?st, {}))) =
     [(0, descriptor ''A'' []), (1, descriptor ''Skyrim'' []), (2, descriptor ''C'' [])]"
    by (simp add: session_A_Skyrim_eq all_installed_def Game_ctor_def descriptor_def)
  from nf reconcile_steps [of ?st "descriptor ''C'' []" "all_installed\<lparr>IsInstalled := (\<lambda>gs. False)\<rparr>" "{}"]
  have c: "installedGames (fst (load_game (all_installed\<lparr>IsInstalled := (\<lambda>gs. False)\<rparr>) (descriptor ''C'' [])
       (?st, {}))) = [(0, descriptor ''A'' []), (1, descriptor ''Skyrim'' [])]"
    by (simp add: session_A_Skyrim_eq)
  let ?s = "configuration [''A'', ''C''] ''auto'' ''auto''"
  have l: "installedGames (fst (load_games all_installed (gameSettings (LootSettings_load ?s ?st))
        (LootSettings_load ?s ?st, {}))) =
      [(0, descriptor ''A'' []), (1, descriptor ''Skyrim'' []), (2, descriptor ''C'' [])]"
    by (simp add: session_A_Skyrim_eq eval_defs)
  have g: "gameSettings (LootSettings_load ?s ?st) = [descriptor ''A'' [], descriptor ''C'' []]"
    by (simp add: LootSettings_load_def configuration_def)
  from reconcile_steps [of "LootSettings_load ?s ?st" _ all_installed]
    reconcile_steps [of ?st _ all_installed _ _ ?s]
  have e: "installedGames (snd (load all_installed ?s ?st)) =
     [(0, descriptor ''A'' []), (2, descriptor ''C'' [])]"
    by (simp add: l) (simp add: g descriptor_def)
  show ?thesis using a b c e by simp
qed

text \<open>
  Claim C5, on the code. The lookup of the first loop compares folder names without regard
  to case, the erase loop compares them letter for letter. The session with \<open>A\<close> and
  \<open>Skyrim\<close> installed is reachable. \<open>load\<close> with \<open>A\<close> and \<open>skyrim\<close> configured finds the
  entry \<open>Skyrim\<close> for the descriptor \<open>skyrim\<close> and overwrites its fields in place; the set
  of new folder names then holds \<open>A\<close> and \<open>skyrim\<close>. The removal pass of the specification
  keeps both entries, each having the identity of a configured descriptor; the erase loop
  of the code removes the entry \<open>Skyrim\<close> it has just updated, and \<open>load\<close> returns with
  \<open>A\<close> alone in the list.
\<close>

theorem load_erases_updated_entry:
  "reachable all_installed session_A_Skyrim \<and>
   installedGames session_A_Skyrim = [(0, descriptor ''A'' []), (1, descriptor ''Skyrim'' [])] \<and>
   find_if (Game_eq (descriptor ''skyrim'' [])) (installedGames session_A_Skyrim) = Node 1 \<and>
   load_games all_installed (gameSettings (configuration [''A'', ''skyrim''] ''auto'' ''auto''))
     (LootSettings_load (configuration [''A'', ''skyrim''] ''auto'' ''auto'') session_A_Skyrim, {}) =
     (session_A_Skyrim
        \<lparr>gameSettings := [descriptor ''A'' [], descriptor ''skyrim'' []],
         installedGames := [(0, descriptor ''A'' []), (1, (descriptor ''Skyrim'' [])\<lparr>Name := ''skyrim''\<rparr>)]\<rparr>,
      {''A'', ''skyrim''}) \<and>
   spec_remove_absent (gameSettings (configuration [''A'', ''skyrim''] ''auto'' ''auto''))
     [(0, descriptor ''A'' []), (1, (descriptor ''Skyrim'' [])\<lparr>Name := ''skyrim''\<rparr>)] =
     [(0, descriptor ''A'' []), (1, (descriptor ''Skyrim'' [])\<lparr>Name := ''skyrim''\<rparr>)] \<and>
   remove_deleted {''A'', ''skyrim''}
     [(0, descriptor ''A'' []), (1, (descriptor ''Skyrim'' [])\<lparr>Name := ''skyrim''\<rparr>)] =
     [(0, descriptor ''A'' [])] \<and>
   load all_installed (configuration [''A'', ''skyrim''] ''auto'' ''auto'') session_A_Skyrim =
     (Returns (),
      session_A_Skyrim\<lparr>gameSettings := [descriptor ''A'' [], descriptor ''skyrim'' []],
                       installedGames := [(0, descriptor ''A'' [])]\<rparr>)"
proof -
  let ?s = "configuration [''A'', ''skyrim''] ''auto'' ''auto''"
  have ok: "fst (load all_installed (configuration [''A'', ''Skyrim''] ''auto'' ''auto'')
            (LootState_ctor (configuration [] ''auto'' ''auto''))) \<noteq> Undefined"
    by (simp add: eval_defs)
  have r: "reachable all_installed session_A_Skyrim"
    unfolding session_A_Skyrim_def by (rule reach_load [OF reach_ctor ok])
  have f: "find_if (Game_eq (descriptor ''skyrim'' [])) (installedGames session_A_Skyrim) = Node 1"
    by (simp add: session_A_Skyrim_eq Game_eq_def descriptor_def iequals_def to_upper_def)
  have first: "load_games all_installed (gameSettings ?s) (LootSettings_load ?s session_A_Skyrim, {}) =
     (session_A_Skyrim
        \<lparr>gameSettings := [descriptor ''A'' [], descriptor ''skyrim'' []],
         installedGames := [(0, descriptor ''A'' []), (1, (descriptor ''Skyrim'' [])\<lparr>Name := ''skyrim''\<rparr>)]\<rparr>,
      {''A'', ''skyrim''})"
    by (simp add: session_A_Skyrim_eq eval_defs) (auto simp: descriptor_def)
  have spec: "spec_remove_absent (gameSettings ?s)
     [(0, descriptor ''A'' []), (1, (descriptor ''Skyrim'' [])\<lparr>Name := ''skyrim''\<rparr>)] =
     [(0, descriptor ''A'' []), (1, (descriptor ''Skyrim'' [])\<lparr>Name := ''skyrim''\<rparr>)]"
    by (simp add: spec_remove_absent_def configuration_def descriptor_def iequals_def to_upper_def)
  have code: "remove_deleted {''A'', ''skyrim''}
     [(0, descriptor ''A'' []), (1, (descriptor ''Skyrim'' [])\<lparr>Name := ''skyrim''\<rparr>)] =
     [(0, descriptor ''A'' [])]"
    by (simp add: descriptor_def)
  have l: "load all_installed ?s session_A_Skyrim =
     (Returns (),
      session_A_Skyrim\<lparr>gameSettings := [descriptor ''A'' [], descriptor ''skyrim'' []],
                       installedGames := [(0, descriptor ''A'' [])]\<rparr>)"
    by (simp add: session_A_Skyrim_eq eval_defs)
  show ?thesis
    using r f first spec code l by (simp add: session_A_Skyrim_eq)
qed

section \<open>Addresses of nodes in reachable states\<close>

text \<open>
  The condition on addresses that the theorems on reconciliation and on loading twice
  assume holds in every reachable state.
\<close>

lemma map_fst_modify_at [simp]: "map fst (modify_at n f xs) = map fst xs"
  by (induction n f xs rule: modify_at.induct) auto

lemma set_fst_eq: "map fst xs = map fst ys \<Longrightarrow> fst ` set xs = fst ` set ys"
  by (metis set_map)

lemma nodes_ok_add_game: "nodes_ok st \<Longrightarrow> nodes_ok (add_game env gs st)"
  by (auto simp: nodes_ok_def less_Suc_eq)

lemma nodes_ok_load_game: "nodes_ok (fst acc) \<Longrightarrow> nodes_ok (fst (load_game env gs acc))"
proof (cases "find_if (Game_eq gs) (installedGames (fst acc))")
  case End
  assume "nodes_ok (fst acc)"
  with End show ?thesis
    by (simp add: load_game_def Let_def nodes_ok_add_game)
next
  case (Node n)
  assume ok: "nodes_ok (fst acc)"
  let ?xs = "installedGames (fst acc)"
  have "fst ` set (modify_at n (set_fields gs) ?xs) = fst ` set ?xs"
    by (rule set_fst_eq) simp
  with ok have "\<forall>e \<in> set (modify_at n (set_fields gs) ?xs). fst e < fresh (fst acc)"
    unfolding nodes_ok_def by (metis (no_types, lifting) image_iff)
  with ok Node show ?thesis
    by (simp add: load_game_def Let_def nodes_ok_def)
qed

lemma nodes_ok_load_games: "nodes_ok (fst acc) \<Longrightarrow> nodes_ok (fst (load_games env cfg acc))"
  by (induction cfg arbitrary: acc) (simp_all add: nodes_ok_load_game)

lemma nodes_ok_reconcile: "nodes_ok st \<Longrightarrow> nodes_ok (reconcile env st)"
proof -
  assume "nodes_ok st"
  then have "nodes_ok (fst (load_games env (gameSettings st) (st, {})))"
    by (intro nodes_ok_load_games) simp
  then show ?thesis
    by (simp add: reconcile_def Let_def remove_deleted_filter nodes_ok_def distinct_map_filter)
qed

lemma nodes_ok_cong:
  "installedGames st' = installedGames st \<Longrightarrow> fresh st' = fresh st \<Longrightarrow> nodes_ok st' = nodes_ok st"
  by (simp add: nodes_ok_def)

lemma nodes_ok_load: "nodes_ok st \<Longrightarrow> nodes_ok (snd (load env s st))"
proof -
  assume "nodes_ok st"
  then have "nodes_ok (LootSettings_load s st)"
    by (simp add: nodes_ok_def LootSettings_load_def)
  then have "nodes_ok (reconcile env (LootSettings_load s st))"
    by (rule nodes_ok_reconcile)
  then show ?thesis
    by (simp add: load_def snd_select_and_init nodes_ok_def)
qed

lemma nodes_ok_detect_games: "nodes_ok st \<Longrightarrow> nodes_ok (detect_games env cfg st)"
  by (induction cfg arbitrary: st) (simp_all add: nodes_ok_add_game)

lemma nodes_ok_init: "nodes_ok st \<Longrightarrow> nodes_ok (init d f env c st)"
proof -
  assume ok: "nodes_ok st"
  define st1 where "st1 = (case d of None \<Rightarrow> st
      | Some what \<Rightarrow> record_error ''Error: Could not create LOOT settings file. '' what st)"
  define st2 where "st2 = (case f of NoFile \<Rightarrow> st1
      | ParsingFailed what \<Rightarrow> record_error ''Error: Settings parsing failed. '' what st1
      | Parsed settings \<Rightarrow> LootSettings_load settings st1)"
  define st3 where "st3 = detect_games env (gameSettings st2) (st2\<lparr>installedGames := []\<rparr>)"
  have "fresh st2 = fresh st"
    by (simp add: st2_def st1_def record_error_def LootSettings_load_def
        split: option.splits settings_file.splits)
  then have "nodes_ok (st2\<lparr>installedGames := []\<rparr>)"
    by (simp add: nodes_ok_def)
  then have ok3: "nodes_ok st3"
    unfolding st3_def by (rule nodes_ok_detect_games)
  have "installedGames (init d f env c st) = installedGames st3 \<and>
      fresh (init d f env c st) = fresh st3"
    by (cases d; cases f)
       (simp_all add: init_def Let_def st3_def st2_def st1_def record_error_def
        split: outcome.splits)
  with ok3 show ?thesis
    by (simp add: nodes_ok_def)
qed

lemma reachable_nodes_ok: "reachable env st \<Longrightarrow> nodes_ok st"
proof (induction rule: reachable.induct)
  case (reach_ctor base)
  show ?case by (simp add: nodes_ok_def LootState_ctor_def)
next
  case (reach_init st dirError f cmdLineGame)
  then show ?case by (simp add: nodes_ok_init)
next
  case (reach_load st settings)
  then show ?case by (simp add: nodes_ok_load)
next
  case (reach_changeGame st folder)
  then show ?case by (simp add: nodes_ok_def changeGame_def)
next
  case (reach_save st)
  then show ?case by (simp add: nodes_ok_def save_def split: option.splits)
next
  case (reach_increment st)
  then show ?case by (simp add: nodes_ok_def incrementUnappliedChangeCounter_def)
next
  case (reach_decrement st)
  then show ?case by (simp add: nodes_ok_def decrementUnappliedChangeCounter_def)
qed

section \<open>Loading twice\<close>

lemma Game_ctor_same: "ctorGamePath env d = GamePath d \<Longrightarrow> Game_ctor env d = d"
  by (simp add: Game_ctor_def)

lemma selectGame_again:
  "selectGame p (snd (selectGame q st)) = selectGame p st"
  by (simp add: selectGame_def Let_def)

lemma selectGame_End:
  "currentGame (snd (selectGame p st)) = End \<longleftrightarrow> fst (selectGame p st) \<noteq> Returns ()"
  by (simp add: selectGame_def Let_def)

lemma select_and_init_again:
  "select_and_init env (snd (select_and_init env st)) = select_and_init env st"
proof (cases "currentGame st = End")
  case False
  then show ?thesis
    by (simp add: select_and_init_def Let_def)
next
  case True
  show ?thesis
  proof (cases "fst (selectGame [] st) = Returns ()")
    case ok: True
    then have "currentGame (snd (selectGame [] st)) \<noteq> End"
      by (simp add: selectGame_End)
    with True ok show ?thesis
      by (simp add: select_and_init_def Let_def)
  next
    case bad: False
    then have c: "currentGame (snd (selectGame [] st)) = End"
      by (simp add: selectGame_End)
    from True have "snd (select_and_init env st) = snd (selectGame [] st)"
      by (simp add: snd_select_and_init)
    with True bad c show ?thesis
      by (simp add: select_and_init_def Let_def selectGame_again split: outcome.splits)
  qed
qed

lemma last_with_Nil [simp]: "last_with k [] = None"
  by (simp add: last_with_def)

lemma last_with_snoc [simp]:
  "last_with k (ds @ [d]) = (if folder_key d = k then Some d else last_with k ds)"
  by (simp add: last_with_def)

lemma Game_eq_key: "Game_eq d g \<longleftrightarrow> folder_key g = folder_key d"
  by (simp add: Game_eq_def iequals_def folder_key_def)

lemma iequals_key: "iequals (FolderName g) (FolderName d) \<longleftrightarrow> folder_key g = folder_key d"
  by (simp add: iequals_def folder_key_def)

lemma set_fields_simps [simp]:
  "FolderName (set_fields d g) = FolderName g"
  "folder_key (set_fields d g) = folder_key g"
  "set_fields d (set_fields d' g) = set_fields d g"
  "set_fields d d = d"
  by (simp_all add: set_fields_def folder_key_def)

lemma settle_entry_simps [simp]:
  "FolderName (settle_entry ds g) = FolderName g"
  "folder_key (settle_entry ds g) = folder_key g"
  "set_fields d (settle_entry ds g) = set_fields d g"
  "settle_entry ds (settle_entry ds g) = settle_entry ds g"
  "settle_entry [] g = g"
  by (simp_all add: settle_entry_def split: option.splits)

lemma settle_entry_snoc:
  "settle_entry (ds @ [d]) g =
     (if folder_key d = folder_key g then set_fields d g else settle_entry ds g)"
  by (simp add: settle_entry_def)

lemma settle_frame [simp]:
  "map fst (settle ds seen xs) = map fst xs"
  "map (\<lambda>e. FolderName (snd e)) (settle ds seen xs) = map (\<lambda>e. FolderName (snd e)) xs"
  "map (\<lambda>e. folder_key (snd e)) (settle ds seen xs) = map (\<lambda>e. folder_key (snd e)) xs"
  by (induction ds seen xs rule: settle.induct) simp_all

lemma keys_settle [simp]: "folder_keys (settle ds seen xs) = folder_keys xs"
  using settle_frame(3) [of ds seen xs] by (metis (no_types, lifting) set_map)

lemma settle_Nil [simp]: "settle [] seen xs = xs"
  by (induction "[] :: GameSettings list" seen xs rule: settle.induct) simp_all

lemma settle_idem: "settle ds seen (settle ds seen xs) = settle ds seen xs"
  by (induction ds seen xs rule: settle.induct) simp_all

lemma settle_append:
  "settle ds seen (xs @ ys) = settle ds seen xs @ settle ds (seen \<union> folder_keys xs) ys"
  by (induction ds seen xs rule: settle.induct) simp_all

lemma settle_snoc_seen:
  "folder_key d \<in> seen \<Longrightarrow> settle (ds @ [d]) seen xs = settle ds seen xs"
  by (induction ds seen xs rule: settle.induct) (auto simp: settle_entry_snoc)

lemma settle_snoc_absent:
  "folder_key d \<notin> folder_keys xs \<Longrightarrow> settle (ds @ [d]) seen xs = settle ds seen xs"
  by (induction ds seen xs rule: settle.induct) (auto simp: settle_entry_snoc)

lemma update_first_settle:
  "folder_key d \<notin> seen \<Longrightarrow>
   update_first d (settle ds seen xs) =
     (if folder_key d \<in> folder_keys xs then Some (settle (ds @ [d]) seen xs) else None)"
proof (induction ds seen xs rule: settle.induct)
  case (1 ds seen)
  show ?case by simp
next
  case (2 ds seen n g xs)
  show ?case
  proof (cases "folder_key g = folder_key d")
    case True
    with "2.prems" have "folder_key g \<notin> seen" by simp
    with True show ?thesis
      by (simp add: Game_eq_key settle_entry_snoc settle_snoc_seen)
  next
    case False
    with "2.prems" have "folder_key d \<notin> insert (folder_key g) seen" by auto
    from "2.IH" [OF this] False show ?thesis
      by (auto simp: Game_eq_key settle_entry_snoc)
  qed
qed

lemma update_first_find_if:
  assumes "distinct (map fst xs)"
  shows "(case find_if (Game_eq d) xs of
            End \<Rightarrow> update_first d xs = None
          | Node n \<Rightarrow> update_first d xs = Some (modify_at n (set_fields d) xs))"
proof (cases "find_if (Game_eq d) xs")
  case End
  then have "\<forall>e \<in> set xs. \<not> Game_eq d (snd e)" by (simp add: find_if_End)
  then have "update_first d xs = None"
    by (induction xs) auto
  with End show ?thesis by simp
next
  case (Node n)
  from find_if_Node_split [OF Node assms, of "set_fields d"] obtain before g after where
    s: "xs = before @ (n, g) # after" "Game_eq d g" "\<forall>e \<in> set before. \<not> Game_eq d (snd e)"
       "modify_at n (set_fields d) xs = before @ (n, set_fields d g) # after"
    by blast
  from s(2,3) have "update_first d (before @ (n, g) # after) = Some (before @ (n, set_fields d g) # after)"
    by (induction before) auto
  with s(1,4) Node show ?thesis by simp
qed

lemma load_game_registry:
  assumes "distinct (map fst (installedGames (fst acc)))"
  shows "installedGames (fst (load_game env d acc)) =
           (case update_first d (installedGames (fst acc)) of
              Some xs \<Rightarrow> xs
            | None \<Rightarrow> if IsInstalled env d
                      then installedGames (fst acc) @ [(fresh (fst acc), Game_ctor env d)]
                      else installedGames (fst acc))"
    and "fresh (fst (load_game env d acc)) =
           (case update_first d (installedGames (fst acc)) of
              Some xs \<Rightarrow> fresh (fst acc)
            | None \<Rightarrow> if IsInstalled env d then Suc (fresh (fst acc)) else fresh (fst acc))"
  using update_first_find_if [OF assms, of d]
  by (auto simp: load_game_def Let_def split: iterator.splits)

lemma spelled_as_configured_names:
  "spelled_as_configured xs cfg \<longleftrightarrow>
     (\<forall>f \<in> set (map (\<lambda>e. FolderName (snd e)) xs).
        (\<exists>c \<in> set cfg. iequals f (FolderName c)) \<longrightarrow> f \<in> FolderName ` set cfg)"
  by (simp add: spelled_as_configured_def)

lemma spelled_as_configured_cong:
  "map (\<lambda>e. FolderName (snd e)) xs = map (\<lambda>e. FolderName (snd e)) ys \<Longrightarrow>
     spelled_as_configured xs cfg = spelled_as_configured ys cfg"
  by (simp only: spelled_as_configured_names)

lemma first_pass_step:
  assumes d: "d \<in> set cfg"
    and ctor: "find_if (Game_eq d) (installedGames st) = End \<and> IsInstalled env d \<longrightarrow>
                 ctorGamePath env d = GamePath d"
    and inv: "first_pass_inv env cfg past st"
  shows "first_pass_inv env cfg (past @ [d]) (fst (load_game env d (st, F)))"
proof -
  let ?R = "installedGames st"
  let ?st' = "fst (load_game env d (st, F))"
  from inv have nodes: "nodes_ok st" and fixed: "settle past {} ?R = ?R"
    and cov: "\<forall>c \<in> set past. IsInstalled env c \<longrightarrow> folder_key c \<in> folder_keys ?R"
    and sp: "spelled_as_configured ?R cfg"
    by (simp_all add: first_pass_inv_def)
  from nodes have dist: "distinct (map fst ?R)" and below: "\<forall>e \<in> set ?R. fst e < fresh st"
    by (simp_all add: nodes_ok_def)
  have uf: "update_first d ?R =
      (if folder_key d \<in> folder_keys ?R then Some (settle (past @ [d]) {} ?R) else None)"
    using update_first_settle [of d "{}" past ?R] by (simp add: fixed)
  have "distinct (map fst (installedGames (fst (st, F))))" using dist by simp
  note reg = load_game_registry [OF this, of env d, simplified]
  show ?thesis
  proof (cases "folder_key d \<in> folder_keys ?R")
    case True
    then have R': "installedGames ?st' = settle (past @ [d]) {} ?R" and f': "fresh ?st' = fresh st"
      by (simp_all add: reg uf)
    have "fst ` set (installedGames ?st') = fst ` set ?R"
      unfolding R' by (rule set_fst_eq) simp
    with below have "\<forall>e \<in> set (installedGames ?st'). fst e < fresh st"
      by (metis (no_types, lifting) image_iff)
    with dist have 1: "nodes_ok ?st'"
      by (simp add: nodes_ok_def R' f')
    have 2: "settle (past @ [d]) {} (installedGames ?st') = installedGames ?st'"
      by (simp add: R' settle_idem)
    have 3: "\<forall>c \<in> set (past @ [d]). IsInstalled env c \<longrightarrow> folder_key c \<in> folder_keys (installedGames ?st')"
      using cov True by (auto simp: R')
    have 4: "spelled_as_configured (installedGames ?st') cfg"
      using sp by (simp add: R' spelled_as_configured_cong [of "settle (past @ [d]) {} ?R" ?R])
    show ?thesis
      unfolding first_pass_inv_def using 1 2 3 4 by blast
  next
    case False
    then have same: "settle (past @ [d]) {} ?R = ?R"
      by (simp add: settle_snoc_absent fixed)
    show ?thesis
    proof (cases "IsInstalled env d")
      case no: False
      with False have "installedGames ?st' = ?R" "fresh ?st' = fresh st"
        by (simp_all add: reg uf)
      with nodes same cov sp no show ?thesis
        by (auto simp: first_pass_inv_def nodes_ok_def)
    next
      case True
      from False have "find_if (Game_eq d) ?R = End"
        unfolding find_if_End Game_eq_key by force
      with ctor True have c: "Game_ctor env d = d" by (simp add: Game_ctor_same)
      from True False have R': "installedGames ?st' = ?R @ [(fresh st, d)]"
        and f': "fresh ?st' = Suc (fresh st)"
        by (simp_all add: reg uf c)
      have 1: "nodes_ok ?st'"
        using dist below by (auto simp: nodes_ok_def R' f' less_Suc_eq)
      have 2: "settle (past @ [d]) {} (installedGames ?st') = installedGames ?st'"
        using False by (simp add: R' settle_append same settle_entry_snoc)
      have 3: "\<forall>c \<in> set (past @ [d]). IsInstalled env c \<longrightarrow> folder_key c \<in> folder_keys (installedGames ?st')"
        using cov by (auto simp: R')
      have 4: "spelled_as_configured (installedGames ?st') cfg"
        using sp d by (auto simp: spelled_as_configured_def R')
      show ?thesis
        unfolding first_pass_inv_def using 1 2 3 4 by blast
    qed
  qed
qed

lemma first_pass:
  assumes ctor: "\<forall>i < length cfg.
      find_if (Game_eq (cfg ! i)) (installedGames (fst (load_games env (take i cfg) (st, F)))) = End \<and>
      IsInstalled env (cfg ! i) \<longrightarrow>
      ctorGamePath env (cfg ! i) = GamePath (cfg ! i)"
  shows "cfg = past @ ds \<Longrightarrow> first_pass_inv env cfg past (fst (load_games env past (st, F))) \<Longrightarrow>
    first_pass_inv env cfg cfg (fst (load_games env cfg (st, F)))"
proof (induction ds arbitrary: past)
  case Nil
  then show ?case by simp
next
  case (Cons d ds)
  let ?acc = "load_games env past (st, F)"
  from Cons.prems(1) have d: "d \<in> set cfg" and i: "length past < length cfg"
    and at: "cfg ! length past = d" and pre: "take (length past) cfg = past"
    by simp_all
  from ctor i have c: "find_if (Game_eq d) (installedGames (fst ?acc)) = End \<and> IsInstalled env d \<longrightarrow>
      ctorGamePath env d = GamePath d"
    unfolding at [symmetric] using pre by (metis (no_types, lifting))
  have "first_pass_inv env cfg (past @ [d]) (fst (load_game env d (fst ?acc, snd ?acc)))"
    using d c Cons.prems(2) by (rule first_pass_step)
  then have "first_pass_inv env cfg (past @ [d]) (fst (load_games env (past @ [d]) (st, F)))"
    by (simp add: load_games_snoc)
  with Cons.prems(1) show ?case
    by (intro Cons.IH) simp_all
qed

lemma second_pass:
  assumes dist: "distinct (map fst xs)"
    and cov: "\<forall>d \<in> set cfg. IsInstalled env d \<longrightarrow> folder_key d \<in> folder_keys xs"
  shows "set ds \<subseteq> set cfg \<Longrightarrow> installedGames (fst acc) = settle past {} xs \<Longrightarrow>
    installedGames (fst (load_games env ds acc)) = settle (past @ ds) {} xs \<and>
    fresh (fst (load_games env ds acc)) = fresh (fst acc)"
proof (induction ds arbitrary: past acc)
  case Nil
  then show ?case by simp
next
  case (Cons d ds)
  from Cons.prems have d: "d \<in> set cfg" and ds: "set ds \<subseteq> set cfg" by auto
  let ?st = "fst acc"
  have dist': "distinct (map fst (installedGames ?st))"
    using dist by (simp add: Cons.prems(2))
  have uf: "update_first d (settle past {} xs) =
      (if folder_key d \<in> folder_keys xs then Some (settle (past @ [d]) {} xs) else None)"
    using update_first_settle [of d "{}" past xs] by simp
  have absent: "settle (past @ [d]) {} xs = settle past {} xs \<and> \<not> IsInstalled env d"
    if "folder_key d \<notin> folder_keys xs"
    using that cov d by (auto simp: settle_snoc_absent)
  have step: "installedGames (fst (load_game env d acc)) = settle (past @ [d]) {} xs \<and>
      fresh (fst (load_game env d acc)) = fresh ?st"
    using absent by (auto simp: load_game_registry [OF dist'] Cons.prems(2) uf)
  then have "installedGames (fst (load_games env ds (load_game env d acc))) =
        settle ((past @ [d]) @ ds) {} xs \<and>
      fresh (fst (load_games env ds (load_game env d acc))) = fresh (fst (load_game env d acc))"
    using ds by (intro Cons.IH) simp_all
  with step show ?case by simp
qed

lemma settle_filter:
  "seen \<inter> K = seen' \<inter> K \<Longrightarrow>
   settle ds seen (filter (\<lambda>e. folder_key (snd e) \<in> K) xs) =
     filter (\<lambda>e. folder_key (snd e) \<in> K) (settle ds seen' xs)"
proof (induction xs arbitrary: seen seen')
  case Nil
  show ?case by simp
next
  case (Cons x xs)
  obtain n g where x: "x = (n, g)" by (cases x) auto
  show ?case
  proof (cases "folder_key g \<in> K")
    case True
    with Cons.prems have m: "folder_key g \<in> seen \<longleftrightarrow> folder_key g \<in> seen'"
      and i: "insert (folder_key g) seen \<inter> K = insert (folder_key g) seen' \<inter> K"
      by auto
    from Cons.IH [OF i] True m show ?thesis
      by (simp add: x)
  next
    case False
    with Cons.prems have i: "seen \<inter> K = insert (folder_key g) seen' \<inter> K"
      by auto
    from Cons.IH [OF i] False show ?thesis
      by (simp add: x)
  qed
qed

lemma selectGame_gameSettings:
  "selectGame p (st\<lparr>gameSettings := c\<rparr>) =
     (fst (selectGame p st), (snd (selectGame p st))\<lparr>gameSettings := c\<rparr>)"
  by (simp add: selectGame_def Let_def)

lemma Game_Init_gameSettings:
  "Game_Init env (st\<lparr>gameSettings := c\<rparr>) =
     (fst (Game_Init env st), (snd (Game_Init env st))\<lparr>gameSettings := c\<rparr>)"
  by (simp add: Game_Init_def split: option.splits)

lemma select_and_init_gameSettings:
  "select_and_init env (st\<lparr>gameSettings := c\<rparr>) =
     (fst (select_and_init env st), (snd (select_and_init env st))\<lparr>gameSettings := c\<rparr>)"
  by (simp add: select_and_init_def Let_def selectGame_gameSettings Game_Init_gameSettings
      split: outcome.splits)

lemma LootSettings_load_store:
  assumes "game st = game s" "lastGame st = lastGame s"
  shows "LootSettings_load s st = st\<lparr>gameSettings := gameSettings s\<rparr>"
  by (simp add: LootSettings_load_def assms [symmetric])

lemma reconcile_loaded:
  assumes ctor: "\<forall>i < length (gameSettings st).
      find_if (Game_eq (gameSettings st ! i))
        (installedGames (fst (load_games env (take i (gameSettings st)) (st, {})))) = End \<and>
      IsInstalled env (gameSettings st ! i) \<longrightarrow>
      ctorGamePath env (gameSettings st ! i) = GamePath (gameSettings st ! i)"
    and nodes: "nodes_ok st"
    and sp: "spelled_as_configured (installedGames st) (gameSettings st)"
  shows "settle (gameSettings st) {} (installedGames (reconcile env st)) = installedGames (reconcile env st)"
    and "\<forall>d \<in> set (gameSettings st). IsInstalled env d \<longrightarrow>
           folder_key d \<in> folder_keys (installedGames (reconcile env st))"
    and "nodes_ok (reconcile env st)"
    and "\<forall>e \<in> set (installedGames (reconcile env st)).
           FolderName (snd e) \<in> FolderName ` set (gameSettings st)"
proof -
  let ?cfg = "gameSettings st"
  let ?k = "fst (load_games env ?cfg (st, {}))"
  let ?R = "installedGames ?k"
  let ?K = "folder_key ` set ?cfg"
  have "first_pass_inv env ?cfg [] (fst (load_games env [] (st, {}::string set)))"
    using nodes sp by (simp add: first_pass_inv_def)
  with ctor have inv: "first_pass_inv env ?cfg ?cfg ?k"
    by (intro first_pass [where past = "[]" and ds = ?cfg]) simp_all
  then have nk: "nodes_ok ?k" and fixed: "settle ?cfg {} ?R = ?R"
    and cov: "\<forall>d \<in> set ?cfg. IsInstalled env d \<longrightarrow> folder_key d \<in> folder_keys ?R"
    and spk: "spelled_as_configured ?R ?cfg"
    by (simp_all add: first_pass_inv_def)
  have by_key: "FolderName (snd e) \<in> FolderName ` set ?cfg \<longleftrightarrow> folder_key (snd e) \<in> ?K"
    if "e \<in> set ?R" for e
  proof
    assume "FolderName (snd e) \<in> FolderName ` set ?cfg"
    then show "folder_key (snd e) \<in> ?K"
      by (auto simp: folder_key_def)
  next
    assume "folder_key (snd e) \<in> ?K"
    then have "\<exists>c \<in> set ?cfg. iequals (FolderName (snd e)) (FolderName c)"
      by (auto simp: iequals_key)
    with spk that show "FolderName (snd e) \<in> FolderName ` set ?cfg"
      by (simp add: spelled_as_configured_def)
  qed
  have r: "installedGames (reconcile env st) = filter (\<lambda>e. folder_key (snd e) \<in> ?K) ?R"
    using by_key by (simp add: reconcile_installedGames cong: filter_cong)
  show "settle ?cfg {} (installedGames (reconcile env st)) = installedGames (reconcile env st)"
    unfolding r using settle_filter [of "{}" ?K "{}" ?cfg ?R] by (simp add: fixed)
  show "\<forall>d \<in> set ?cfg. IsInstalled env d \<longrightarrow> folder_key d \<in> folder_keys (installedGames (reconcile env st))"
  proof (intro ballI impI)
    fix d assume d: "d \<in> set ?cfg" and i: "IsInstalled env d"
    with cov obtain e where e: "e \<in> set ?R" "folder_key (snd e) = folder_key d"
      by auto
    with d have "e \<in> set (filter (\<lambda>e. folder_key (snd e) \<in> ?K) ?R)"
      by auto
    with e(2) show "folder_key d \<in> folder_keys (installedGames (reconcile env st))"
      unfolding r by force
  qed
  show "nodes_ok (reconcile env st)"
    using nodes by (rule nodes_ok_reconcile)
  show "\<forall>e \<in> set (installedGames (reconcile env st)). FolderName (snd e) \<in> FolderName ` set ?cfg"
    by (simp add: reconcile_installedGames)
qed

lemma reconcile_again:
  assumes fixed: "settle (gameSettings st) {} (installedGames st) = installedGames st"
    and cov: "\<forall>d \<in> set (gameSettings st). IsInstalled env d \<longrightarrow> folder_key d \<in> folder_keys (installedGames st)"
    and dist: "distinct (map fst (installedGames st))"
    and kept: "\<forall>e \<in> set (installedGames st). FolderName (snd e) \<in> FolderName ` set (gameSettings st)"
  shows "reconcile env st = st"
proof -
  let ?cfg = "gameSettings st"
  let ?k = "fst (load_games env ?cfg (st, {}))"
  from second_pass [OF dist cov subset_refl, of "(st, {})" "[]"]
  have reg: "installedGames ?k = installedGames st" and fr: "fresh ?k = fresh st"
    by (simp_all add: fixed)
  from fr have "fresh ?k = fresh (fst (st, {}::string set))" by simp
  then have gs: "gameSettings ?k = gameSettings st"
    using load_games_fresh_same [of env ?cfg "(st, {})"] by simp
  have k: "?k = st"
    by (rule LootState.equality) (simp_all add: reg fr gs)
  have "filter (\<lambda>e. FolderName (snd e) \<in> FolderName ` set ?cfg) (installedGames st) = installedGames st"
    using kept by (simp add: filter_id_conv)
  then show ?thesis
    by (simp add: reconcile_def Let_def k remove_deleted_filter load_games_folders)
qed

text \<open>
  A second \<open>load\<close> can differ from the first where the lookup finds an entry that the
  erase loop does not keep. In the session with \<open>A\<close> and \<open>Skyrim\<close> installed, \<open>load\<close> with
  \<open>A\<close> and \<open>skyrim\<close> configured updates the entry \<open>Skyrim\<close> and then erases it; the same
  \<open>load\<close> again finds no entry for \<open>skyrim\<close> and appends one.
\<close>

lemma load_twice_appends_erased:
  "installedGames (snd (load all_installed (configuration [''A'', ''skyrim''] ''auto'' ''auto'') session_A_Skyrim)) =
     [(0, descriptor ''A'' [])] \<and>
   installedGames (snd (load all_installed (configuration [''A'', ''skyrim''] ''auto'' ''auto'')
     (snd (load all_installed (configuration [''A'', ''skyrim''] ''auto'' ''auto'') session_A_Skyrim)))) =
     [(0, descriptor ''A'' []), (2, descriptor ''skyrim'' [])]"
proof -
  let ?s = "configuration [''A'', ''skyrim''] ''auto'' ''auto''"
  have one: "load all_installed ?s session_A_Skyrim =
      (Returns (),
       session_A_Skyrim\<lparr>gameSettings := [descriptor ''A'' [], descriptor ''skyrim'' []],
         installedGames := [(0, (descriptor ''A'' []))]\<rparr>)"
    by (simp add: session_A_Skyrim_eq eval_defs)
  have two: "installedGames (snd (load all_installed ?s
      (session_A_Skyrim\<lparr>gameSettings := [descriptor ''A'' [], descriptor ''skyrim'' []],
         installedGames := [(0, (descriptor ''A'' []))]\<rparr>))) =
      [(0, descriptor ''A'' []), (2, descriptor ''skyrim'' [])]"
    by (simp add: session_A_Skyrim_eq eval_defs)
  show ?thesis
    unfolding one using two by simp
qed

text \<open>
  Claim C8, as stated, fails. Let the constructor of a game find the game under
  \<open>C:/Games/\<close>, whatever path is configured. On a freshly constructed state, \<open>load\<close> with
  \<open>A\<close> configured without a path returns and appends \<open>A\<close> with the constructor's path
  \<open>C:/Games/A\<close>. The same \<open>load\<close> again returns too; it finds the entry and overwrites its
  path with the configured, empty one. The list after two calls is not the list after one.
\<close>

theorem load_twice_resets_path:
  "fst (load detecting (configuration [''A''] ''auto'' ''auto'')
      (LootState_ctor (configuration [] ''auto'' ''auto''))) = Returns () \<and>
   installedGames (snd (load detecting (configuration [''A''] ''auto'' ''auto'')
      (LootState_ctor (configuration [] ''auto'' ''auto'')))) =
     [(0, descriptor ''A'' ''C:/Games/A'')] \<and>
   fst (load detecting (configuration [''A''] ''auto'' ''auto'')
      (snd (load detecting (configuration [''A''] ''auto'' ''auto'')
         (LootState_ctor (configuration [] ''auto'' ''auto''))))) = Returns () \<and>
   installedGames (snd (load detecting (configuration [''A''] ''auto'' ''auto'')
      (snd (load detecting (configuration [''A''] ''auto'' ''auto'')
         (LootState_ctor (configuration [] ''auto'' ''auto'')))))) =
     [(0, descriptor ''A'' [])] \<and>
   installedGames (snd (load detecting (configuration [''A''] ''auto'' ''auto'')
      (snd (load detecting (configuration [''A''] ''auto'' ''auto'')
         (LootState_ctor (configuration [] ''auto'' ''auto'')))))) \<noteq>
   installedGames (snd (load detecting (configuration [''A''] ''auto'' ''auto'')
      (LootState_ctor (configuration [] ''auto'' ''auto''))))"
  by (simp add: eval_defs detecting_def)

text \<open>
  Claim C8, amended. Let the first \<open>load\<close> not run into undefined behaviour; let the nodes
  of the list have pairwise different addresses (as in every reachable state); let every
  installed game whose folder name equals that of a configured game without regard to case
  have exactly the folder name of a configured game; and let the constructor keep the
  configured path of every game the first \<open>load\<close> constructs, that is, whenever its first
  loop, the descriptors before the \<open>i\<close>-th done, finds no entry for the \<open>i\<close>-th and the
  probe reports it installed. Then a second \<open>load\<close> with the same configuration and
  collaborators has the outcome of the first and leaves the list of installed games, the
  selection and the counter as the first left them; the whole state is that of the first
  call, except that the stored settings are those given again.
\<close>

theorem load_idempotent:
  "nodes_ok st \<and>
   fst (load env settings st) \<noteq> Undefined \<and>
   spelled_as_configured (installedGames st) (gameSettings settings) \<and>
   (\<forall>i < length (gameSettings settings).
      find_if (Game_eq (gameSettings settings ! i))
        (installedGames (fst (load_games env (take i (gameSettings settings))
           (LootSettings_load settings st, {})))) = End \<and>
      IsInstalled env (gameSettings settings ! i) \<longrightarrow>
      ctorGamePath env (gameSettings settings ! i) = GamePath (gameSettings settings ! i)) \<longrightarrow>
   load env settings (snd (load env settings st)) =
     (fst (load env settings st), (snd (load env settings st))\<lparr>gameSettings := gameSettings settings\<rparr>) \<and>
   fst (load env settings (snd (load env settings st))) = fst (load env settings st) \<and>
   installedGames (snd (load env settings (snd (load env settings st)))) =
     installedGames (snd (load env settings st)) \<and>
   currentGame (snd (load env settings (snd (load env settings st)))) =
     currentGame (snd (load env settings st)) \<and>
   unappliedChangeCounter (snd (load env settings (snd (load env settings st)))) =
     unappliedChangeCounter (snd (load env settings st))"
proof
  assume h: "nodes_ok st \<and>
   fst (load env settings st) \<noteq> Undefined \<and>
   spelled_as_configured (installedGames st) (gameSettings settings) \<and>
   (\<forall>i < length (gameSettings settings).
      find_if (Game_eq (gameSettings settings ! i))
        (installedGames (fst (load_games env (take i (gameSettings settings))
           (LootSettings_load settings st, {})))) = End \<and>
      IsInstalled env (gameSettings settings ! i) \<longrightarrow>
      ctorGamePath env (gameSettings settings ! i) = GamePath (gameSettings settings ! i))"
  let ?cfg = "gameSettings settings"
  let ?st0 = "LootSettings_load settings st"
  let ?st1 = "reconcile env ?st0"
  let ?X = "snd (select_and_init env ?st1)"
  let ?Z = "?X\<lparr>gameSettings := ?cfg\<rparr>"
  have st0: "gameSettings ?st0 = ?cfg" "installedGames ?st0 = installedGames st"
      "fresh ?st0 = fresh st" "game ?st0 = game settings" "lastGame ?st0 = lastGame settings"
    by (simp_all add: LootSettings_load_def)
  from h have h0: "\<forall>i < length (gameSettings ?st0).
      find_if (Game_eq (gameSettings ?st0 ! i))
        (installedGames (fst (load_games env (take i (gameSettings ?st0)) (?st0, {})))) = End \<and>
      IsInstalled env (gameSettings ?st0 ! i) \<longrightarrow>
      ctorGamePath env (gameSettings ?st0 ! i) = GamePath (gameSettings ?st0 ! i)"
      "nodes_ok ?st0"
      "spelled_as_configured (installedGames ?st0) (gameSettings ?st0)"
    by (simp_all add: st0 nodes_ok_def)
  note s1 = reconcile_loaded [OF h0]
  have gX: "game ?X = game settings" "lastGame ?X = lastGame settings"
      "installedGames ?X = installedGames ?st1"
    by (simp_all add: snd_select_and_init st0)
  have lX: "LootSettings_load settings ?X = ?Z"
    by (rule LootSettings_load_store) (rule gX)+
  have rZ: "reconcile env ?Z = ?Z"
    using s1 by (intro reconcile_again) (simp_all add: gX st0 nodes_ok_def)
  have "load env settings (snd (load env settings st)) =
      select_and_init env (reconcile env (LootSettings_load settings ?X))"
    by (simp add: load_def)
  also have "\<dots> = select_and_init env ?Z"
    by (simp only: lX rZ)
  also have "\<dots> = (fst (select_and_init env ?X), (snd (select_and_init env ?X))\<lparr>gameSettings := ?cfg\<rparr>)"
    by (rule select_and_init_gameSettings)
  also have "select_and_init env ?X = select_and_init env ?st1"
    by (rule select_and_init_again)
  finally have main: "load env settings (snd (load env settings st)) =
     (fst (load env settings st), (snd (load env settings st))\<lparr>gameSettings := ?cfg\<rparr>)"
    by (simp add: load_def)
  show "load env settings (snd (load env settings st)) =
     (fst (load env settings st), (snd (load env settings st))\<lparr>gameSettings := gameSettings settings\<rparr>) \<and>
   fst (load env settings (snd (load env settings st))) = fst (load env settings st) \<and>
   installedGames (snd (load env settings (snd (load env settings st)))) =
     installedGames (snd (load env settings st)) \<and>
   currentGame (snd (load env settings (snd (load env settings st)))) =
     currentGame (snd (load env settings st)) \<and>
   unappliedChangeCounter (snd (load env settings (snd (load env settings st)))) =
     unappliedChangeCounter (snd (load env settings st))"
    by (simp add: main)
qed

theorem load_idempotent_witness:
  "load all_installed (configuration [''B'', ''C''] ''B'' ''auto'') session_default_B =
     (Returns (),
      session_default_B\<lparr>gameSettings := [descriptor ''B'' [], descriptor ''C'' []],
        installedGames := [(1, descriptor ''B'' []), (2, descriptor ''C'' [])], fresh := 3\<rparr>) \<and>
   load all_installed (configuration [''B'', ''C''] ''B'' ''auto'')
     (snd (load all_installed (configuration [''B'', ''C''] ''B'' ''auto'') session_default_B)) =
     (Returns (),
      session_default_B\<lparr>gameSettings := [descriptor ''B'' [], descriptor ''C'' []],
        installedGames := [(1, descriptor ''B'' []), (2, descriptor ''C'' [])], fresh := 3\<rparr>) \<and>
   load detecting (configuration [''A'', ''B''] ''auto'' ''auto'') session_A_B = (Returns (), session_A_B) \<and>
   load detecting (configuration [''A'', ''B''] ''auto'' ''auto'')
     (snd (load detecting (configuration [''A'', ''B''] ''auto'' ''auto'') session_A_B)) =
     (Returns (), session_A_B)"
proof -
  let ?s = "configuration [''B'', ''C''] ''B'' ''auto''"
  have one: "load all_installed ?s session_default_B =
     (Returns (),
      session_default_B\<lparr>gameSettings := [descriptor ''B'' [], descriptor ''C'' []],
        installedGames := [(1, descriptor ''B'' []), (2, descriptor ''C'' [])], fresh := 3\<rparr>)"
    by (simp add: session_default_B_eq eval_defs)
  have g: "gameSettings ?s = [descriptor ''B'' [], descriptor ''C'' []]"
    by (simp add: configuration_def)
  have h: "nodes_ok session_default_B"
      "fst (load all_installed ?s session_default_B) \<noteq> Undefined"
      "spelled_as_configured (installedGames session_default_B) (gameSettings ?s)"
      "\<forall>i < length (gameSettings ?s).
         find_if (Game_eq (gameSettings ?s ! i))
           (installedGames (fst (load_games all_installed (take i (gameSettings ?s))
              (LootSettings_load ?s session_default_B, {})))) = End \<and>
         IsInstalled all_installed (gameSettings ?s ! i) \<longrightarrow>
         ctorGamePath all_installed (gameSettings ?s ! i) = GamePath (gameSettings ?s ! i)"
    by (simp_all add: one)
      (simp_all add: session_default_B_eq nodes_ok_def spelled_as_configured_def
        configuration_def descriptor_def all_installed_def iequals_def to_upper_def)
  from h load_idempotent [of session_default_B all_installed ?s]
  have a: "load all_installed ?s (snd (load all_installed ?s session_default_B)) =
      (fst (load all_installed ?s session_default_B),
       (snd (load all_installed ?s session_default_B))\<lparr>gameSettings := gameSettings ?s\<rparr>)"
    by blast
  let ?t = "configuration [''A'', ''B''] ''auto'' ''auto''"
  have one': "load detecting ?t session_A_B = (Returns (), session_A_B)"
    by (simp add: session_A_B_eq eval_defs detecting_def)
  have g': "gameSettings ?t = [descriptor ''A'' [], descriptor ''B'' []]"
    by (simp add: configuration_def)
  have l': "LootSettings_load ?t session_A_B = session_A_B"
    by (simp add: session_A_B_eq LootSettings_load_def configuration_def)
  have h': "nodes_ok session_A_B"
      "fst (load detecting ?t session_A_B) \<noteq> Undefined"
      "spelled_as_configured (installedGames session_A_B) (gameSettings ?t)"
      "\<forall>i < length (gameSettings ?t).
         find_if (Game_eq (gameSettings ?t ! i))
           (installedGames (fst (load_games detecting (take i (gameSettings ?t))
              (LootSettings_load ?t session_A_B, {})))) = End \<and>
         IsInstalled detecting (gameSettings ?t ! i) \<longrightarrow>
         ctorGamePath detecting (gameSettings ?t ! i) = GamePath (gameSettings ?t ! i)"
    by (simp_all add: one' l' g')
      (simp_all add: session_A_B_eq nodes_ok_def spelled_as_configured_def All_less_Suc
        load_game_def Game_eq_def set_fields_def descriptor_def iequals_def to_upper_def)
  from h' load_idempotent [of session_A_B detecting ?t]
  have b: "load detecting ?t (snd (load detecting ?t session_A_B)) =
      (fst (load detecting ?t session_A_B),
       (snd (load detecting ?t session_A_B))\<lparr>gameSettings := gameSettings ?t\<rparr>)"
    by blast
  have e: "session_A_B\<lparr>gameSettings := gameSettings ?t\<rparr> = session_A_B"
    by (simp add: session_A_B_eq g')
  from a have a': "load all_installed ?s (snd (load all_installed ?s session_default_B)) =
     (Returns (),
      session_default_B\<lparr>gameSettings := [descriptor ''B'' [], descriptor ''C'' []],
        installedGames := [(1, descriptor ''B'' []), (2, descriptor ''C'' [])], fresh := 3\<rparr>)"
    by (simp add: one g)
  from b have b': "load detecting ?t (snd (load detecting ?t session_A_B)) = (Returns (), session_A_B)"
    by (simp add: one' e)
  show ?thesis
    using one a' one' b' by simp
qed

end
